theory Spec2Isabelle
  imports Main
begin

section \<open>Python string primitives used by the converter\<close>

text \<open>
  A Python \<^verbatim>\<open>str\<close> is modelled as a \<^typ>\<open>string\<close>, one \<^typ>\<open>char\<close> per code point
  (code points below 256).  The characters for which \<^verbatim>\<open>str.isspace()\<close> holds, which are
  also the characters \<^verbatim>\<open>str.strip()\<close> removes and the regular-expression class
  \<^verbatim>\<open>\s\<close> matches, are listed in \<open>is_space\<close>; \<^verbatim>\<open>\d\<close> is \<open>is_digit\<close>.
\<close>

definition NL :: char where
  "NL = CHR 0x0A"

definition BSL :: char where
  "BSL = CHR 0x5C"

definition is_space :: "char \<Rightarrow> bool" where
  "is_space c = (c \<in> set [CHR 0x09, CHR 0x0A, CHR 0x0B, CHR 0x0C, CHR 0x0D,
                           CHR 0x1C, CHR 0x1D, CHR 0x1E, CHR 0x1F, CHR 0x20,
                           CHR 0x85, CHR 0xA0])"

definition is_digit :: "char \<Rightarrow> bool" where
  "is_digit c = (c \<in> set ''0123456789'')"

text \<open>\<^verbatim>\<open>s.lstrip()\<close>, \<^verbatim>\<open>s.rstrip()\<close>, \<^verbatim>\<open>s.strip()\<close>.\<close>

definition lstrip :: "string \<Rightarrow> string" where
  "lstrip s = dropWhile is_space s"

definition rstrip :: "string \<Rightarrow> string" where
  "rstrip s = rev (dropWhile is_space (rev s))"

definition strip :: "string \<Rightarrow> string" where
  "strip s = rstrip (lstrip s)"

text \<open>\<^verbatim>\<open>s.startswith(p)\<close> and \<^verbatim>\<open>s.endswith(p)\<close>.\<close>

fun startswith :: "string \<Rightarrow> string \<Rightarrow> bool" where
  "startswith s [] = True"
| "startswith [] (p # ps) = False"
| "startswith (c # cs) (p # ps) = (c = p \<and> startswith cs ps)"

definition endswith :: "string \<Rightarrow> string \<Rightarrow> bool" where
  "endswith s p = startswith (rev s) (rev p)"

text \<open>
  \<open>split_first sep s\<close> cuts \<open>s\<close> at the leftmost occurrence of \<open>sep\<close>; it is the search
  behind \<^verbatim>\<open>sep in s\<close>, \<^verbatim>\<open>s.replace(old, new)\<close> and the lazy groups of the regular
  expressions.
\<close>

fun split_first :: "string \<Rightarrow> string \<Rightarrow> (string \<times> string) option" where
  "split_first sep [] = (if sep = [] then Some ([], []) else None)"
| "split_first sep (c # cs) =
     (if startswith (c # cs) sep then Some ([], drop (length sep) (c # cs))
      else (case split_first sep cs of
              None \<Rightarrow> None
            | Some (b, a) \<Rightarrow> Some (c # b, a)))"

definition contains :: "string \<Rightarrow> string \<Rightarrow> bool" where
  "contains sub s = (split_first sub s \<noteq> None)"

lemma split_first_length:
  "split_first sep s = Some (b, a) \<Longrightarrow> length b + length sep + length a = length s"
proof (induction s arbitrary: b)
  case Nil
  then show ?case by (simp split: if_splits)
next
  case (Cons c cs)
  show ?case
  proof (cases "startswith (c # cs) sep")
    case True
    have "length sep \<le> length xs" if "startswith xs sep" for xs
      using that by (induction xs sep rule: startswith.induct) auto
    with True Cons.prems show ?thesis by fastforce
  next
    case False
    with Cons show ?thesis by (auto split: option.splits)
  qed
qed

text \<open>
  \<^verbatim>\<open>s.replace(old, new)\<close>: every non-overlapping occurrence, left to right.  With an
  empty \<open>old\<close> Python inserts \<open>new\<close> before every character and at the end.
\<close>

function replace_str :: "string \<Rightarrow> string \<Rightarrow> string \<Rightarrow> string" where
  "replace_str old new s =
     (if old = [] then new @ concat (map (\<lambda>c. c # new) s)
      else (case split_first old s of
              None \<Rightarrow> s
            | Some (b, a) \<Rightarrow> b @ new @ replace_str old new a))"
  by pat_completeness auto
termination
proof (relation "measure (\<lambda>(old, new, s). length s)")
  fix old new :: string and s x2 b a
  assume "old \<noteq> []" and "split_first old s = Some x2" and "(b, a) = x2"
  then have "length b + length old + length a = length s"
    using split_first_length [of old s b a] by simp
  with \<open>old \<noteq> []\<close> show "((old, new, a), (old, new, s)) \<in> measure (\<lambda>(old, new, s). length s)"
    by (cases old) auto
qed simp

declare replace_str.simps [simp del]

text \<open>\<^verbatim>\<open>s.replace(old, new, 1)\<close>: the leftmost occurrence only.\<close>

definition replace_first :: "string \<Rightarrow> string \<Rightarrow> string \<Rightarrow> string" where
  "replace_first old new s =
     (case split_first old s of None \<Rightarrow> s | Some (b, a) \<Rightarrow> b @ new @ a)"

text \<open>\<^verbatim>\<open>s.split(sep)\<close> for a one-character separator, and \<^verbatim>\<open>sep.join(parts)\<close>.\<close>

fun split_char :: "char \<Rightarrow> string \<Rightarrow> string list" where
  "split_char sep [] = [[]]"
| "split_char sep (c # cs) =
     (if c = sep then [] # split_char sep cs
      else (case split_char sep cs of
              [] \<Rightarrow> [[c]]
            | w # ws \<Rightarrow> (c # w) # ws))"

fun join :: "string \<Rightarrow> string list \<Rightarrow> string" where
  "join sep [] = []"
| "join sep [x] = x"
| "join sep (x # y # ys) = x @ sep @ join sep (y # ys)"

text \<open>Decimal rendering of a counter inside an f-string.\<close>

function str_nat :: "nat \<Rightarrow> string" where
  "str_nat n =
     (if n < 10 then [''0123456789'' ! n]
      else str_nat (n div 10) @ [''0123456789'' ! (n mod 10)])"
  by pat_completeness auto
termination
  by (relation "measure id") auto

declare str_nat.simps [simp del]


section \<open>The list nesting normalizer\<close>

text \<open>
  \<^verbatim>\<open>re.match(r'^\d+\.\s+', stripped)\<close>: one or more digits, a dot, one or more white-space
  characters.  Both repetitions are greedy and the character that follows each cannot
  belong to it, so the match is unique; the result is the text behind the match, which is
  what \<^verbatim>\<open>re.sub(r'^\d+\.\s+', '', stripped)\<close> keeps.
\<close>

definition match_numbered :: "string \<Rightarrow> string option" where
  "match_numbered s =
     (let ds = takeWhile is_digit s; r = dropWhile is_digit s
      in if ds \<noteq> [] \<and> startswith r ''.'' \<and> takeWhile is_space (drop 1 r) \<noteq> []
         then Some (dropWhile is_space (drop 1 r)) else None)"

text \<open>
  \<^verbatim>\<open>(stripped.startswith('#') and not stripped.startswith('##'))
     or re.match(r'^\d+\.\s+', stripped)\<close>
\<close>

definition is_ordered_item :: "string \<Rightarrow> bool" where
  "is_ordered_item stripped =
     ((startswith stripped ''#'' \<and> \<not> startswith stripped ''##'')
      \<or> match_numbered stripped \<noteq> None)"

text \<open>The line appended for an ordinal head (source lines 478 to 485).\<close>

definition ordered_head :: "string \<Rightarrow> string" where
  "ordered_head stripped =
     (if startswith stripped ''#'' then ''# '' @ strip (drop 1 stripped)
      else ''# '' @ (case match_numbered stripped of None \<Rightarrow> stripped | Some content \<Rightarrow> content))"

text \<open>\<^verbatim>\<open>s.startswith('*') or s.startswith('-') or s.startswith('+')\<close>\<close>

definition starts_with_marker :: "string \<Rightarrow> bool" where
  "starts_with_marker s = (startswith s ''*'' \<or> startswith s ''-'' \<or> startswith s ''+'')"

text \<open>\<^verbatim>\<open>len(line) - len(line.lstrip())\<close>\<close>

definition indent_level :: "string \<Rightarrow> nat" where
  "indent_level line = length line - length (lstrip line)"

text \<open>The line appended for a sub-item inside the look-ahead (source lines 503 to 519).\<close>

definition sub_item_line :: "string \<Rightarrow> string" where
  "sub_item_line next_line =
     (let next_stripped = strip next_line;
          sub_content = strip (drop 1 next_stripped)
      in if indent_level next_line \<ge> 6 then ''#** '' @ sub_content
         else ''#* '' @ sub_content)"

text \<open>
  The look-ahead loop \<^verbatim>\<open>while j < len(lines)\<close> (source lines 490 to 529), run on
  \<^verbatim>\<open>lines[j:]\<close>.  It returns the lines it appended, \<^verbatim>\<open>found_hr_after_list\<close> and
  the lines left at its final \<^verbatim>\<open>j\<close>.
\<close>

fun sub_items :: "string list \<Rightarrow> string list \<times> bool \<times> string list" where
  "sub_items [] = ([], False, [])"
| "sub_items (next_line # rest) =
     (let next_stripped = strip next_line
      in if next_stripped = ''---'' then ([], True, next_line # rest)
         else if starts_with_marker next_stripped
                 \<or> (startswith next_line ''   '' \<and> starts_with_marker next_stripped)
         then (case sub_items rest of
                 (out, found_hr, remaining) \<Rightarrow> (sub_item_line next_line # out, found_hr, remaining))
         else if is_ordered_item next_stripped then ([], False, next_line # rest)
         else if next_stripped = [] then sub_items rest
         else ([], False, next_line # rest))"

lemma sub_items_remaining_length:
  "length (snd (snd (sub_items ls))) \<le> length ls"
  by (induction ls) (auto simp: Let_def split: prod.splits)

text \<open>
  \<^verbatim>\<open>re.match(r'^[\s]*[-*+]\s+', line)\<close>: leading white space, one marker character, at
  least one white-space character.
\<close>

definition match_unordered :: "string \<Rightarrow> bool" where
  "match_unordered line =
     (let r = dropWhile is_space line
      in starts_with_marker r \<and> takeWhile is_space (drop 1 r) \<noteq> [])"

text \<open>The line appended for a bullet outside an ordered list (source lines 539 to 549).\<close>

definition unordered_line :: "string \<Rightarrow> string" where
  "unordered_line line =
     (let content = strip (drop 1 (strip line))
      in if indent_level line \<ge> 2 then ''<<<JIRALIST2>>>'' @ content
         else ''* '' @ content)"

text \<open>
  \<^verbatim>\<open>_convert_lists_with_nesting\<close>: the outer loop \<^verbatim>\<open>while i < len(lines)\<close>, run on
  \<^verbatim>\<open>lines[i:]\<close>; after an ordinal head it continues at the look-ahead's final \<^verbatim>\<open>j\<close>.
\<close>

function convert_lists_with_nesting :: "string list \<Rightarrow> string list" where
  "convert_lists_with_nesting [] = []"
| "convert_lists_with_nesting (line # rest) =
     (let stripped = strip line
      in if is_ordered_item stripped
         then ordered_head stripped # fst (sub_items rest)
                @ (if fst (snd (sub_items rest)) then [[]] else [])
                @ convert_lists_with_nesting (snd (snd (sub_items rest)))
         else if match_unordered line \<and> \<not> startswith stripped ''---''
         then unordered_line line # convert_lists_with_nesting rest
         else line # convert_lists_with_nesting rest)"
  by pat_completeness auto
termination
  by (relation "measure length")
     (auto simp: less_Suc_eq_le sub_items_remaining_length)


section \<open>Regular-expression fragments\<close>

text \<open>
  Each pattern of the converter is translated by hand into the function that Python's
  backtracking matcher computes for it.  \<open>.\<close> is any character but the newline;
  \<open>$\<close> is the end of the string or the position before a final newline.

  \<^verbatim>\<open>(.+)$\<close> at the start of \<open>s\<close>: the group and what is left behind the match.
\<close>

definition dot_plus_eol :: "string \<Rightarrow> (string \<times> string) option" where
  "dot_plus_eol s =
     (let g = takeWhile (\<lambda>c. c \<noteq> NL) s; r = dropWhile (\<lambda>c. c \<noteq> NL) s
      in if g \<noteq> [] \<and> (r = [] \<or> r = [NL]) then Some (g, r) else None)"

text \<open>\<^verbatim>\<open>\s+(.+)$\<close>: the greedy \<^verbatim>\<open>\s+\<close> gives characters back only when the rest fails.\<close>

fun ws_plus_dot :: "string \<Rightarrow> (string \<times> string) option" where
  "ws_plus_dot [] = None"
| "ws_plus_dot (c # cs) =
     (if is_space c
      then (case ws_plus_dot cs of Some m \<Rightarrow> Some m | None \<Rightarrow> dot_plus_eol cs)
      else None)"

text \<open>\<^verbatim>\<open>\s*(.+)$\<close>\<close>

fun ws_star_dot :: "string \<Rightarrow> (string \<times> string) option" where
  "ws_star_dot [] = None"
| "ws_star_dot (c # cs) =
     (if is_space c
      then (case ws_star_dot cs of Some m \<Rightarrow> Some m | None \<Rightarrow> dot_plus_eol (c # cs))
      else dot_plus_eol (c # cs))"

text \<open>
  \<^verbatim>\<open>(.+?)close\<close> behind an opening delimiter: the lazy group takes one character and
  then grows up to the leftmost \<open>close\<close>; a newline on the way makes the match fail.
  The result is the group and the text behind \<open>close\<close>.
\<close>

definition lazy_group :: "string \<Rightarrow> string \<Rightarrow> (string \<times> string) option" where
  "lazy_group close r =
     (case r of
        [] \<Rightarrow> None
      | x # r' \<Rightarrow>
          (case split_first close r' of
             None \<Rightarrow> None
           | Some (b, a) \<Rightarrow> if NL \<in> set (x # b) then None else Some (x # b, a)))"

lemma lazy_group_length:
  "lazy_group close r = Some (g, a) \<Longrightarrow> length a < length r"
proof -
  assume m: "lazy_group close r = Some (g, a)"
  then obtain x r' b where r: "r = x # r'" and sf: "split_first close r' = Some (b, a)"
    by (auto simp: lazy_group_def split: list.splits option.splits if_splits)
  from split_first_length [OF sf] r show ?thesis by simp
qed

text \<open>
  \<^verbatim>\<open>[\s\-\|]+\|$\<close>, the part of the separator pattern \<^verbatim>\<open>^\|[\s\-\|]+\|$\<close> behind
  its first pipe; the result is what is left behind the match.
\<close>

definition sep_class :: "char \<Rightarrow> bool" where
  "sep_class c = (is_space c \<or> c = CHR ''-'' \<or> c = CHR ''|'')"

fun sep_body :: "string \<Rightarrow> string option" where
  "sep_body [] = None"
| "sep_body (c # cs) =
     (if sep_class c
      then (case sep_body cs of
              Some r \<Rightarrow> Some r
            | None \<Rightarrow> if cs = ''|'' then Some []
                      else if cs = [CHR ''|'', NL] then Some [NL] else None)
      else None)"

text \<open>\<^verbatim>\<open>re.match(r'^\|[\s\-\|]+\|$', s)\<close> as a truth value.\<close>

definition is_table_separator :: "string \<Rightarrow> bool" where
  "is_table_separator s = (startswith s ''|'' \<and> sep_body (drop 1 s) \<noteq> None)"

section \<open>The inline rewriter\<close>

definition jira_emoticons :: "string list" where
  "jira_emoticons =
     [''(y)'', ''(n)'', ''(i)'', ''(!)'', ''(?)'', ''(on)'', ''(off)'', ''(*)'', ''(*r)'',
      ''(*g)'', ''(*b)'', ''(*y)'', ''(flag)'', ''(flagoff)'', ''(+)'', ''(-)'', ''(x)'',
      ''(/)'']"

text \<open>
  \<^verbatim>\<open>sorted(self.jira_emoticons, key=len, reverse=True)\<close>: a stable sort, longest first.
\<close>

definition sorted_emoticons :: "string list" where
  "sorted_emoticons = sort_key (\<lambda>e. - int (length e)) jira_emoticons"

text \<open>
  The loop over the sorted emoticons (source lines 594 to 602).  The dictionary
  \<^verbatim>\<open>emoticon_placeholders\<close> is an association list in insertion order.
\<close>

fun escape_loop ::
  "string list \<Rightarrow> string \<Rightarrow> (string \<times> string) list \<Rightarrow> nat \<Rightarrow> string \<times> (string \<times> string) list"
where
  "escape_loop [] converted emoticon_placeholders emoticon_count =
     (converted, emoticon_placeholders)"
| "escape_loop (emoticon # es) converted emoticon_placeholders emoticon_count =
     (if contains emoticon converted
      then (let placeholder = ''__EMOTICON_PLACEHOLDER_'' @ str_nat emoticon_count @ ''__'';
                escaped = BSL # emoticon
            in escape_loop es (replace_str emoticon placeholder converted)
                 (emoticon_placeholders @ [(placeholder, escaped)]) (emoticon_count + 1))
      else escape_loop es converted emoticon_placeholders emoticon_count)"

text \<open>
  \<^verbatim>\<open>re.finditer(r'\*\*(.+?)\*\*', converted)\<close>: the non-overlapping matches from left to
  right, each as \<^verbatim>\<open>(match.group(0), match.group(1))\<close>.
\<close>

function bold_matches :: "string \<Rightarrow> (string \<times> string) list" where
  "bold_matches [] = []"
| "bold_matches (c # cs) =
     (if startswith (c # cs) ''**''
      then (case lazy_group ''**'' (drop 2 (c # cs)) of
              Some (g, after) \<Rightarrow> (''**'' @ g @ ''**'', g) # bold_matches after
            | None \<Rightarrow> bold_matches cs)
      else bold_matches cs)"
  by pat_completeness auto
termination
proof (relation "measure length")
  fix c :: char and cs x2 g after
  assume "lazy_group ''**'' (drop 2 (c # cs)) = Some x2" and "(g, after) = x2"
  then have "length after < length (drop 2 (c # cs))"
    using lazy_group_length [of "''**''" "drop 2 (c # cs)" g after] by simp
  then show "(after, c # cs) \<in> measure length" by simp
qed simp_all

text \<open>The loop over the bold matches (source lines 608 to 612).\<close>

fun bold_loop ::
  "(string \<times> string) list \<Rightarrow> string \<Rightarrow> (string \<times> string) list \<Rightarrow> nat
     \<Rightarrow> string \<times> (string \<times> string) list"
where
  "bold_loop [] converted bold_placeholders bold_count = (converted, bold_placeholders)"
| "bold_loop ((group0, group1) # ms) converted bold_placeholders bold_count =
     (let placeholder = ''__BOLD_PLACEHOLDER_'' @ str_nat bold_count @ ''__''
      in bold_loop ms (replace_first group0 placeholder converted)
           (bold_placeholders @ [(placeholder, ''*'' @ group1 @ ''*'')]) (bold_count + 1))"

text \<open>
  \<^verbatim>\<open>re.sub(r'\*([^*\n]+?)\*', r'_\1_', converted)\<close>: behind a star the group is the run
  of characters that are neither a star nor a newline; it must not be empty and a star
  must follow it.
\<close>

definition italic_char :: "char \<Rightarrow> bool" where
  "italic_char x = (x \<noteq> CHR ''*'' \<and> x \<noteq> NL)"

function sub_italic :: "string \<Rightarrow> string" where
  "sub_italic [] = []"
| "sub_italic (c # cs) =
     (if c = CHR ''*'' \<and> takeWhile italic_char cs \<noteq> []
         \<and> startswith (dropWhile italic_char cs) ''*''
      then ''_'' @ takeWhile italic_char cs @ ''_''
             @ sub_italic (drop 1 (dropWhile italic_char cs))
      else c # sub_italic cs)"
  by pat_completeness auto
termination
proof (relation "measure length")
  fix c :: char and cs
  have "length (drop 1 (dropWhile italic_char cs)) \<le> length cs"
    using length_dropWhile_le [of italic_char cs] by simp
  then show "(drop 1 (dropWhile italic_char cs), c # cs) \<in> measure length" by simp
qed simp_all

text \<open>
  \<^verbatim>\<open>for placeholder, replacement in placeholders.items():
      converted = converted.replace(placeholder, replacement)\<close>
\<close>

fun restore_placeholders :: "(string \<times> string) list \<Rightarrow> string \<Rightarrow> string" where
  "restore_placeholders [] converted = converted"
| "restore_placeholders ((placeholder, replacement) # phs) converted =
     restore_placeholders phs (replace_str placeholder replacement converted)"


subsection \<open>The pattern table\<close>

text \<open>
  The entries of \<^verbatim>\<open>self.patterns\<close> that \<^verbatim>\<open>_convert_line\<close> applies with
  \<^verbatim>\<open>re.sub(pattern, replacement, converted)\<close>.  A pattern that begins with \<open>^\<close> can
  match at the start of the string only.

  Headers: \<^verbatim>\<open>(r'^## (.+)$', r'h2. \1')\<close> and its siblings.
\<close>

definition sub_header :: "string \<Rightarrow> string \<Rightarrow> string \<Rightarrow> string" where
  "sub_header hashes out s =
     (if startswith s hashes
      then (case dot_plus_eol (drop (length hashes) s) of
              Some (g, r) \<Rightarrow> out @ g @ r
            | None \<Rightarrow> s)
      else s)"

text \<open>\<^verbatim>\<open>'code_inline': (r'`(.+?)`', r'{{\1}}')\<close>\<close>

function sub_code_inline :: "string \<Rightarrow> string" where
  "sub_code_inline [] = []"
| "sub_code_inline (c # cs) =
     (if c = CHR ''`''
      then (case lazy_group ''`'' cs of
              Some (g, after) \<Rightarrow> ''{{'' @ g @ ''}}'' @ sub_code_inline after
            | None \<Rightarrow> c # sub_code_inline cs)
      else c # sub_code_inline cs)"
  by pat_completeness auto
termination
proof (relation "measure length")
  fix c :: char and cs x2 g after
  assume "lazy_group ''`'' cs = Some x2" and "(g, after) = x2"
  then have "length after < length cs"
    using lazy_group_length [of "''`''" cs g after] by simp
  then show "(after, c # cs) \<in> measure length" by simp
qed simp_all

text \<open>\<^verbatim>\<open>'unordered_list': (r'^(?!\*\*|#\*|#\*\*)[\s]*[-*+]\s+(.+)$', r'* \1')\<close>\<close>

definition sub_unordered_list :: "string \<Rightarrow> string" where
  "sub_unordered_list s =
     (if startswith s ''**'' \<or> startswith s ''#*'' \<or> startswith s ''#**'' then s
      else (let r = dropWhile is_space s
            in if starts_with_marker r
               then (case ws_plus_dot (drop 1 r) of
                       Some (g, rest) \<Rightarrow> ''* '' @ g @ rest
                     | None \<Rightarrow> s)
               else s))"

text \<open>\<^verbatim>\<open>'ordered_list': (r'^[\s]*\d+\.\s+(.+)$', r'# \1')\<close>\<close>

definition sub_ordered_list :: "string \<Rightarrow> string" where
  "sub_ordered_list s =
     (let r = dropWhile is_space s;
          ds = takeWhile is_digit r;
          r2 = dropWhile is_digit r
      in if ds \<noteq> [] \<and> startswith r2 ''.''
         then (case ws_plus_dot (drop 1 r2) of
                 Some (g, rest) \<Rightarrow> ''# '' @ g @ rest
               | None \<Rightarrow> s)
         else s)"

text \<open>
  \<^verbatim>\<open>'link': (r'\[([^\]]+)\]\(([^)]+)\)', r'[\1|\2]')\<close>.  \<open>match_link\<close> is the
  pattern behind its opening bracket: both groups and the text behind the match.
\<close>

definition match_link :: "string \<Rightarrow> (string \<times> string \<times> string) option" where
  "match_link cs =
     (let t = takeWhile (\<lambda>x. x \<noteq> CHR '']'') cs;
          r = dropWhile (\<lambda>x. x \<noteq> CHR '']'') cs;
          u = takeWhile (\<lambda>x. x \<noteq> CHR '')'') (drop 2 r);
          r2 = dropWhile (\<lambda>x. x \<noteq> CHR '')'') (drop 2 r)
      in if t \<noteq> [] \<and> startswith r ''](''  \<and> u \<noteq> [] \<and> startswith r2 '')''
         then Some (t, u, drop 1 r2) else None)"

lemma match_link_length:
  assumes "match_link cs = Some (t, u, after)"
  shows "length after \<le> length cs"
proof -
  let ?r = "dropWhile (\<lambda>x. x \<noteq> CHR '']'') cs"
  let ?r2 = "dropWhile (\<lambda>x. x \<noteq> CHR '')'') (drop 2 ?r)"
  from assms have "after = drop 1 ?r2"
    by (simp add: match_link_def Let_def split: if_splits)
  moreover have "length ?r2 \<le> length (drop 2 ?r)" by (rule length_dropWhile_le)
  moreover have "length ?r \<le> length cs" by (rule length_dropWhile_le)
  ultimately show ?thesis by simp
qed

function sub_link :: "string \<Rightarrow> string" where
  "sub_link [] = []"
| "sub_link (c # cs) =
     (if c = CHR ''[''
      then (case match_link cs of
              Some (t, u, after) \<Rightarrow> ''['' @ t @ ''|'' @ u @ '']'' @ sub_link after
            | None \<Rightarrow> c # sub_link cs)
      else c # sub_link cs)"
  by pat_completeness auto
termination
proof (relation "measure length")
  fix c :: char and cs x2 t y u after
  assume "match_link cs = Some x2" and "(t, y) = x2" and "(u, after) = y"
  then have "length after \<le> length cs"
    using match_link_length [of cs t u after] by simp
  then show "(after, c # cs) \<in> measure length" by simp
qed simp_all

text \<open>\<^verbatim>\<open>'table_separator': (r'^\|[\s\-\|]+\|$', r'')\<close>\<close>

definition sub_table_separator :: "string \<Rightarrow> string" where
  "sub_table_separator s =
     (if startswith s ''|''
      then (case sep_body (drop 1 s) of Some r \<Rightarrow> r | None \<Rightarrow> s)
      else s)"

text \<open>\<^verbatim>\<open>'hr': (r'^---$', r'----')\<close>\<close>

definition sub_hr :: "string \<Rightarrow> string" where
  "sub_hr s =
     (if s = ''---'' then ''----''
      else if s = ''---'' @ [NL] then ''----'' @ [NL]
      else s)"

text \<open>\<^verbatim>\<open>'blockquote': (r'^>\s*(.+)$', r'{quote}\1{quote}')\<close>\<close>

definition sub_blockquote :: "string \<Rightarrow> string" where
  "sub_blockquote s =
     (if startswith s ''>''
      then (case ws_star_dot (drop 1 s) of
              Some (g, r) \<Rightarrow> ''{quote}'' @ g @ ''{quote}'' @ r
            | None \<Rightarrow> s)
      else s)"

text \<open>\<^verbatim>\<open>'strikethrough': (r'~~(.+?)~~', r'-\1-')\<close>\<close>

function sub_strikethrough :: "string \<Rightarrow> string" where
  "sub_strikethrough [] = []"
| "sub_strikethrough (c # cs) =
     (if startswith (c # cs) ''~~''
      then (case lazy_group ''~~'' (drop 2 (c # cs)) of
              Some (g, after) \<Rightarrow> ''-'' @ g @ ''-'' @ sub_strikethrough after
            | None \<Rightarrow> c # sub_strikethrough cs)
      else c # sub_strikethrough cs)"
  by pat_completeness auto
termination
proof (relation "measure length")
  fix c :: char and cs x2 g after
  assume "lazy_group ''~~'' (drop 2 (c # cs)) = Some x2" and "(g, after) = x2"
  then have "length after < length (drop 2 (c # cs))"
    using lazy_group_length [of "''~~''" "drop 2 (c # cs)" g after] by simp
  then show "(after, c # cs) \<in> measure length" by simp
qed simp_all

text \<open>
  The dictionary \<^verbatim>\<open>self.patterns\<close> in insertion order, without the entries
  \<^verbatim>\<open>code_block\<close>, \<^verbatim>\<open>code_block_no_lang\<close>, \<^verbatim>\<open>table_header\<close> and
  \<^verbatim>\<open>table_row\<close>, which the loop skips; each entry is its \<^verbatim>\<open>re.sub\<close>.
\<close>

definition patterns :: "(string \<Rightarrow> string) list" where
  "patterns =
     [sub_header ''## '' ''h2. '',
      sub_header ''### '' ''h3. '',
      sub_header ''#### '' ''h4. '',
      sub_header ''##### '' ''h5. '',
      sub_header ''###### '' ''h6. '',
      sub_code_inline,
      sub_unordered_list,
      sub_ordered_list,
      sub_link,
      sub_table_separator,
      sub_hr,
      sub_blockquote,
      sub_strikethrough]"

text \<open>
  \<^verbatim>\<open>for pattern_name, (pattern, replacement) in self.patterns.items():
      converted = re.sub(pattern, replacement, converted)\<close>
\<close>

definition apply_patterns :: "string \<Rightarrow> string" where
  "apply_patterns converted = foldl (\<lambda>converted sub. sub converted) converted patterns"

text \<open>
  The bold and italic block of \<^verbatim>\<open>_convert_line\<close> (source lines 604 to 619): bold spans
  go to placeholders, single-star spans become italic, the placeholders are restored.
\<close>

definition bold_italic :: "string \<Rightarrow> string" where
  "bold_italic converted =
     (case bold_loop (bold_matches converted) converted [] 0 of
        (converted, bold_placeholders) \<Rightarrow>
          restore_placeholders bold_placeholders (sub_italic converted))"

text \<open>
  \<^verbatim>\<open>_convert_line\<close>: the emoticon loop, the bold and italic block, the pattern table,
  the emoticon placeholders restored.  Both branches of the final test on \<^verbatim>\<open>#*\<close>
  return \<^verbatim>\<open>converted\<close>.
\<close>

definition convert_line :: "string \<Rightarrow> string" where
  "convert_line line =
     (case escape_loop sorted_emoticons line [] 0 of
        (converted, emoticon_placeholders) \<Rightarrow>
          (if startswith (strip line) ''#*''
           then restore_placeholders emoticon_placeholders (apply_patterns (bold_italic converted))
           else restore_placeholders emoticon_placeholders (apply_patterns (bold_italic converted))))"

section \<open>The line classifier\<close>

text \<open>\<^verbatim>\<open>_convert_table_line\<close>; \<^verbatim>\<open>content[1:-1]\<close> is \<open>butlast (drop 1 content)\<close>.\<close>

definition convert_table_line :: "string \<Rightarrow> string" where
  "convert_table_line line =
     (let content = strip line
      in if startswith content ''|'' \<and> endswith content ''|''
         then (let content = butlast (drop 1 content);
                   cells = map strip (split_char (CHR ''|'') content)
               in if startswith (strip line) ''||'' \<or> contains ''||'' line
                  then ''||'' @ join ''||'' cells @ ''||''
                  else ''|'' @ join ''|'' cells @ ''|'')
         else line)"

record loop_state =
  converted_lines :: "string list"
  in_code_block :: bool
  in_table :: bool

text \<open>The body of \<^verbatim>\<open>for line in lines\<close> in \<^verbatim>\<open>convert_text\<close> (source lines 411 to 448).\<close>

definition step :: "loop_state \<Rightarrow> string \<Rightarrow> loop_state" where
  "step st line =
     (if startswith (strip line) ''```''
      then (if \<not> in_code_block st
            then (let lang = strip (drop 3 (strip line))
                  in st\<lparr>converted_lines := converted_lines st
                            @ [if lang \<noteq> [] then ''{code:'' @ lang @ ''}'' else ''{code}''],
                        in_code_block := True\<rparr>)
            else st\<lparr>converted_lines := converted_lines st @ [''{code}''],
                    in_code_block := False\<rparr>)
      else if in_code_block st
      then st\<lparr>converted_lines := converted_lines st @ [line]\<rparr>
      else if CHR ''|'' \<in> set line \<and> startswith (strip line) ''|''
      then (let st = (if \<not> in_table st then st\<lparr>in_table := True\<rparr> else st)
            in if strip line = ''|'' \<or> is_table_separator (strip line) then st
               else st\<lparr>converted_lines := converted_lines st @ [convert_table_line line]\<rparr>)
      else (let st = (if in_table st then st\<lparr>in_table := False\<rparr> else st)
            in st\<lparr>converted_lines := converted_lines st @ [convert_line line]\<rparr>))"

definition initial_state :: loop_state where
  "initial_state = \<lparr>converted_lines = [], in_code_block = False, in_table = False\<rparr>"

text \<open>\<^verbatim>\<open>convert_text\<close>\<close>

definition convert_text :: "string \<Rightarrow> string" where
  "convert_text text =
     (let lines = split_char NL text;
          lines = convert_lists_with_nesting lines;
          st = foldl step initial_state lines;
          final_result = join [NL] (converted_lines st)
      in replace_str ''<<<JIRALIST2>>>'' ''** '' final_result)"


section \<open>The loops of the normalizer as written\<close>

text \<open>
  \<^verbatim>\<open>_convert_lists_with_nesting\<close> is written with two index loops,
  \<^verbatim>\<open>while i < len(lines)\<close> and inside it \<^verbatim>\<open>while j < len(lines)\<close>.  Here they are
  with their indices, as partial functions: a loop that does not terminate has the value
  \<open>None\<close>.  The only indexing, \<^verbatim>\<open>lines[i]\<close> and \<^verbatim>\<open>lines[j]\<close>, happens under the
  loop conditions.  No other operation of \<^verbatim>\<open>convert_text\<close> can raise on a string:
  slicing, \<^verbatim>\<open>strip\<close>, \<^verbatim>\<open>split\<close>, \<^verbatim>\<open>join\<close>, \<^verbatim>\<open>replace\<close> and the \<^verbatim>\<open>re\<close> calls with
  the fixed patterns are total, so the result type has no error value besides \<open>None\<close>.  The list
  \<^verbatim>\<open>converted_lines\<close> of the normalizer is \<open>out_lines\<close> here.
\<close>

partial_function (option) lookahead_while ::
  "string list \<Rightarrow> nat \<Rightarrow> string list \<Rightarrow> (nat \<times> bool \<times> string list) option"
where
  "lookahead_while lines j out_lines =
     (if j < length lines
      then (let next_line = lines ! j; next_stripped = strip next_line
            in if next_stripped = ''---'' then Some (j, True, out_lines)
               else if starts_with_marker next_stripped
                       \<or> (startswith next_line ''   '' \<and> starts_with_marker next_stripped)
               then lookahead_while lines (j + 1) (out_lines @ [sub_item_line next_line])
               else if is_ordered_item next_stripped then Some (j, False, out_lines)
               else if next_stripped = [] then lookahead_while lines (j + 1) out_lines
               else Some (j, False, out_lines))
      else Some (j, False, out_lines))"

partial_function (option) lists_while ::
  "string list \<Rightarrow> nat \<Rightarrow> string list \<Rightarrow> string list option"
where
  "lists_while lines i out_lines =
     (if i < length lines
      then (let line = lines ! i; stripped = strip line
            in if is_ordered_item stripped
               then Option.bind
                      (lookahead_while lines (i + 1) (out_lines @ [ordered_head stripped]))
                      (\<lambda>(j, found_hr_after_list, out_lines).
                         lists_while lines j
                           (if found_hr_after_list then out_lines @ [[]]
                            else out_lines))
               else if match_unordered line \<and> \<not> startswith stripped ''---''
               then lists_while lines (i + 1) (out_lines @ [unordered_line line])
               else lists_while lines (i + 1) (out_lines @ [line]))
      else Some out_lines)"

text \<open>\<^verbatim>\<open>convert_text\<close> with the normalizer run through its loops.\<close>

definition convert_text_run :: "string \<Rightarrow> string option" where
  "convert_text_run text =
     Option.bind (lists_while (split_char NL text) 0 [])
       (\<lambda>lines. Some (replace_str ''<<<JIRALIST2>>>'' ''** ''
                        (join [NL] (converted_lines (foldl step initial_state lines)))))"

section \<open>Plain lines\<close>

text \<open>
  Two predicates for stating what the converter does to ordinary text.  A line has an
  inert start when it is not empty and its first character is none of the characters a
  block-level rule looks for at the start of a line: white space, a digit, or one of
  \<^verbatim>\<open>#\<close>, \<^verbatim>\<open>-\<close>, \<^verbatim>\<open>*\<close>, \<^verbatim>\<open>+\<close>, \<^verbatim>\<open>|\<close>, \<^verbatim>\<open>>\<close> and the backquote.  A text
  has no inline markup when it contains none of the characters the inline rewriter acts
  on: the opening parenthesis of the emoticons, the star, the backquote, the opening
  bracket and the tilde (and no newline).
\<close>

definition inert_start :: "string \<Rightarrow> bool" where
  "inert_start l =
     (case l of
        [] \<Rightarrow> False
      | c # _ \<Rightarrow> \<not> is_space c \<and> \<not> is_digit c \<and> c \<notin> set ''#-*+|>`'')"

definition no_inline_markup :: "string \<Rightarrow> bool" where
  "no_inline_markup s = list_all (\<lambda>c. c \<notin> set ''(*`[~'' \<and> c \<noteq> NL) s"

section \<open>Lines of text, emoticons and emphasis spans\<close>

text \<open>
  A vocabulary for the lines on which the escaping of emoticons is stated.  An atom is a
  piece of plain text or a catalogued emoticon; a span is a bold, italic or strikethrough
  span around a run of atoms, together with the run of atoms in front of it; a line is a
  list of spans followed by a last run of atoms.  \<open>markdown_line\<close> writes such a line
  in Markdown, \<open>jira_line\<close> writes the same line in Jira markup with a backslash in
  front of every emoticon; \<open>markdown_text\<close> and \<open>jira_text\<close> do the same for a document,
  a list of lines.
\<close>

datatype atom = Txt string | Emo string




fun render_atom :: "(string \<Rightarrow> string) \<Rightarrow> atom \<Rightarrow> string" where
  "render_atom f (Txt t) = t"
| "render_atom f (Emo e) = f e"

definition render_atoms :: "(string \<Rightarrow> string) \<Rightarrow> atom list \<Rightarrow> string" where
  "render_atoms f as = concat (map (render_atom f) as)"













subsection \<open>Intermediate forms of a line inside the inline rewriter\<close>












section \<open>Evaluation on concrete inputs\<close>

text \<open>The sorted catalogue, longest token first, tokens of equal length in catalogue order.\<close>

lemma sorted_emoticons_eq:
  "sorted_emoticons =
     [''(flagoff)'', ''(flag)'', ''(off)'', ''(on)'', ''(*r)'', ''(*g)'', ''(*b)'', ''(*y)'',
      ''(y)'', ''(n)'', ''(i)'', ''(!)'', ''(?)'', ''(*)'', ''(+)'', ''(-)'', ''(x)'', ''(/)'']"
  by (simp add: sorted_emoticons_def jira_emoticons_def)

text \<open>The equations that evaluate the converter on a closed term.\<close>

lemmas eval_simps =
  NL_def BSL_def is_space_def is_digit_def lstrip_def rstrip_def strip_def endswith_def
  contains_def replace_str.simps replace_first_def str_nat.simps match_numbered_def
  is_ordered_item_def ordered_head_def starts_with_marker_def indent_level_def
  sub_item_line_def match_unordered_def unordered_line_def dot_plus_eol_def lazy_group_def
  sep_class_def is_table_separator_def sorted_emoticons_eq italic_char_def sub_header_def
  sub_unordered_list_def sub_ordered_list_def match_link_def sub_table_separator_def
  sub_hr_def sub_blockquote_def patterns_def apply_patterns_def bold_italic_def
  convert_line_def convert_table_line_def step_def initial_state_def convert_text_def Let_def

section \<open>Facts about the string primitives and the normalizer\<close>


lemma startswith_append_self: "startswith (p @ b) p"
  by (induction p) auto


lemma startswith_iff_take: "startswith s p \<longleftrightarrow> take (length p) s = p"
  by (induction s p rule: startswith.induct) auto

lemma rstrip_Cons_nonspace: "\<not> is_space c \<Longrightarrow> rstrip (c # cs) = c # rstrip cs"
  by (simp add: rstrip_def dropWhile_append)

lemma strip_Cons_nonspace: "\<not> is_space c \<Longrightarrow> strip (c # cs) = c # rstrip cs"
  by (simp add: strip_def lstrip_def rstrip_Cons_nonspace)

lemma set_strip_subset: "set (strip l) \<subseteq> set l"
proof -
  have "set (rstrip s) \<subseteq> set s" for s
    using set_dropWhileD [of _ is_space "rev s"] by (auto simp: rstrip_def)
  moreover have "set (lstrip l) \<subseteq> set l"
    using set_dropWhileD [of _ is_space l] by (auto simp: lstrip_def)
  ultimately show ?thesis unfolding strip_def by blast
qed

lemma strip_decomp: "\<exists>a b. l = a @ strip l @ b"
proof -
  have r: "s = rstrip s @ rev (takeWhile is_space (rev s))" for s
    unfolding rstrip_def by (metis rev_append rev_rev_ident takeWhile_dropWhile_id)
  have "l = takeWhile is_space l @ lstrip l" by (simp add: lstrip_def)
  with r [of "lstrip l"] have "l = takeWhile is_space l @ strip l @ rev (takeWhile is_space (rev (lstrip l)))"
    by (simp add: strip_def)
  then show ?thesis by blast
qed

lemma not_ordered_Nil: "\<not> is_ordered_item []"
  by (simp add: is_ordered_item_def match_numbered_def)

lemma not_marker_Nil: "\<not> starts_with_marker []"
  by (simp add: starts_with_marker_def)

lemma not_ordered_hr: "\<not> is_ordered_item ''---''"
  by (simp add: is_ordered_item_def match_numbered_def is_digit_def)

lemma sub_items_hr: "strip l = ''---'' \<Longrightarrow> sub_items (l # rest) = ([], True, l # rest)"
  by simp

lemma sub_items_run:
  "\<forall>x\<in>set subs. strip x = [] \<or> (starts_with_marker (strip x) \<and> strip x \<noteq> ''---'') \<Longrightarrow>
   sub_items (subs @ rest) =
     (map sub_item_line (filter (\<lambda>x. strip x \<noteq> []) subs) @ fst (sub_items rest),
      fst (snd (sub_items rest)), snd (snd (sub_items rest)))"
proof (induction subs)
  case Nil
  then show ?case by simp
next
  case (Cons x subs)
  then have IH: "sub_items (subs @ rest) =
     (map sub_item_line (filter (\<lambda>x. strip x \<noteq> []) subs) @ fst (sub_items rest),
      fst (snd (sub_items rest)), snd (snd (sub_items rest)))" by simp
  from Cons.prems have x: "strip x = [] \<or> (starts_with_marker (strip x) \<and> strip x \<noteq> ''---'')"
    by simp
  show ?case
  proof (cases "strip x = []")
    case True
    then show ?thesis using IH by (simp add: not_ordered_Nil not_marker_Nil)
  next
    case False
    with x have "starts_with_marker (strip x)" "strip x \<noteq> ''---''" by auto
    then show ?thesis using IH False by simp
  qed
qed

lemma convert_lists_hr:
  "strip l = ''---'' \<Longrightarrow> convert_lists_with_nesting (l # rest) = l # convert_lists_with_nesting rest"
  by (simp add: not_ordered_hr)





subsection \<open>Table lines\<close>

lemma contains_append: "contains p (a @ p @ b)"
proof (induction a)
  case Nil
  show ?case
  proof (cases "p @ b")
    case Nil
    then show ?thesis by (simp add: contains_def)
  next
    case (Cons c cs)
    then have "startswith (c # cs) p" using startswith_append_self [of p b] by simp
    with Cons show ?thesis by (simp add: contains_def)
  qed
next
  case (Cons c a)
  then show ?case by (auto simp: contains_def split: option.splits)
qed

lemma contains_strip:
  assumes "startswith (strip l) p"
  shows "contains p l"
proof -
  obtain a b where l: "l = a @ strip l @ b" using strip_decomp by blast
  from assms have "take (length p) (strip l) = p" by (simp add: startswith_iff_take)
  then have "strip l = p @ drop (length p) (strip l)"
    by (metis append_take_drop_id)
  with l have "l = a @ p @ (drop (length p) (strip l) @ b)" by (metis append.assoc)
  then show ?thesis using contains_append [of p a "drop (length p) (strip l) @ b"] by simp
qed

lemma sep_body_Some:
  "sep_body t = Some r \<Longrightarrow> (\<forall>c\<in>set t. sep_class c) \<and> 2 \<le> length t"
proof (induction t arbitrary: r)
  case Nil
  then show ?case by simp
next
  case (Cons c cs)
  from Cons.prems have c: "sep_class c" by (simp split: if_splits)
  show ?case
  proof (cases "sep_body cs")
    case (Some r')
    with Cons.IH c show ?thesis by auto
  next
    case None
    with Cons.prems c have "cs = ''|'' \<or> cs = [CHR ''|'', NL]"
      by (simp split: if_splits)
    with c show ?thesis by (auto simp: sep_class_def is_space_def NL_def)
  qed
qed

lemma sep_body_run:
  "m \<noteq> [] \<Longrightarrow> \<forall>c\<in>set m. sep_class c \<Longrightarrow> sep_body (m @ ''|'') \<noteq> None"
proof (induction m)
  case Nil
  then show ?case by simp
next
  case (Cons c m)
  show ?case
  proof (cases "m = []")
    case True
    with Cons.prems show ?thesis by (simp split: option.splits)
  next
    case False
    with Cons have "sep_body (m @ ''|'') \<noteq> None" by simp
    with Cons.prems show ?thesis by (auto split: option.splits)
  qed
qed

lemma separator_iff:
  assumes "startswith s ''|''" and "endswith s ''|''"
  shows "(s = ''|'' \<or> is_table_separator s)
           \<longleftrightarrow> ((\<forall>c\<in>set s. sep_class c) \<and> s \<noteq> ''||'')"
proof
  assume "s = ''|'' \<or> is_table_separator s"
  then show "(\<forall>c\<in>set s. sep_class c) \<and> s \<noteq> ''||''"
  proof
    assume "s = ''|''"
    then show ?thesis by (simp add: sep_class_def)
  next
    assume "is_table_separator s"
    then obtain r where r: "sep_body (drop 1 s) = Some r"
      by (auto simp: is_table_separator_def)
    from assms(1) obtain t where s: "s = CHR ''|'' # t" by (cases s) auto
    from sep_body_Some [OF r] s show ?thesis by (auto simp: sep_class_def)
  qed
next
  assume a: "(\<forall>c\<in>set s. sep_class c) \<and> s \<noteq> ''||''"
  from assms(1) obtain t where s: "s = CHR ''|'' # t" by (cases s) auto
  show "s = ''|'' \<or> is_table_separator s"
  proof (cases "t = []")
    case True
    with s show ?thesis by simp
  next
    case False
    from assms(2) s False have "last t = CHR ''|''"
      by (cases t rule: rev_cases) (auto simp: endswith_def)
    with False have t: "t = butlast t @ ''|''" by (metis append_butlast_last_id)
    from a s t have "butlast t \<noteq> []" by (cases "butlast t") auto
    moreover from a s have "\<forall>c\<in>set (butlast t). sep_class c"
      by (auto dest: in_set_butlastD)
    ultimately have "sep_body (butlast t @ ''|'') \<noteq> None" by (rule sep_body_run)
    with t have "sep_body t \<noteq> None" by simp
    with s show ?thesis by (simp add: is_table_separator_def)
  qed
qed

lemma pipe_not_fence: "startswith s ''|'' \<Longrightarrow> \<not> startswith s ''```''"
  by (cases s) auto

lemma pipe_in_line: "startswith (strip l) ''|'' \<Longrightarrow> CHR ''|'' \<in> set l"
proof -
  assume "startswith (strip l) ''|''"
  then have "CHR ''|'' \<in> set (strip l)" by (cases "strip l") auto
  then show ?thesis using set_strip_subset by blast
qed

lemma rstrip_decomp: "s = rstrip s @ rev (takeWhile is_space (rev s))"
  unfolding rstrip_def by (metis rev_append rev_rev_ident takeWhile_dropWhile_id)

lemma lstrip_eq_strip_append: "\<exists>b. lstrip l = strip l @ b"
  using rstrip_decomp [of "lstrip l"] unfolding strip_def by blast

lemma strip_last_nonspace: "strip l \<noteq> [] \<Longrightarrow> \<not> is_space (last (strip l))"
proof -
  assume ne: "strip l \<noteq> []"
  let ?d = "dropWhile is_space (rev (lstrip l))"
  from ne have d: "?d \<noteq> []" by (simp add: strip_def rstrip_def)
  then have "\<not> is_space (hd ?d)" by (rule hd_dropWhile)
  moreover have "last (strip l) = hd ?d" using d by (simp add: strip_def rstrip_def last_rev)
  ultimately show ?thesis by simp
qed

lemma startswith_appendI: "startswith s p \<Longrightarrow> startswith (s @ b) p"
  by (induction s p rule: startswith.induct) auto

lemma endswith_Cons: "endswith cs p \<Longrightarrow> endswith (c # cs) p"
  by (simp add: endswith_def startswith_appendI)

lemma sep_body_ends:
  "sep_body t = Some r \<Longrightarrow> endswith t ''|'' \<or> is_space (last t)"
proof (induction t arbitrary: r)
  case Nil
  then show ?case by simp
next
  case (Cons c cs)
  show ?case
  proof (cases "sep_body cs")
    case (Some r')
    with Cons.IH have "endswith cs ''|'' \<or> is_space (last cs)" by blast
    moreover from Some have "cs \<noteq> []" by auto
    ultimately show ?thesis by (auto simp: endswith_Cons)
  next
    case None
    with Cons.prems have "cs = ''|'' \<or> cs = [CHR ''|'', NL]"
      by (simp split: if_splits)
    then show ?thesis by (auto simp: endswith_def is_space_def NL_def)
  qed
qed

lemma split_first_None: "c \<notin> set s \<Longrightarrow> split_first (c # t) s = None"
  by (induction s) auto

lemma replace_str_absent: "c \<notin> set s \<Longrightarrow> replace_str (c # t) new s = s"
  by (simp add: replace_str.simps split_first_None)

lemma split_char_no_sep: "sep \<notin> set s \<Longrightarrow> split_char sep s = [s]"
  by (induction s) auto

text \<open>A line whose stripped form starts with a character that no list rule accepts.\<close>

lemma pipe_line_not_list:
  assumes "startswith (strip l) ''|''"
  shows "strip l \<noteq> ''---''" and "\<not> starts_with_marker (strip l)"
    and "\<not> is_ordered_item (strip l)" and "strip l \<noteq> []" and "\<not> match_unordered l"
proof -
  from assms obtain t where s: "strip l = CHR ''|'' # t" by (cases "strip l") auto
  then show "strip l \<noteq> ''---''" and "\<not> starts_with_marker (strip l)" and "strip l \<noteq> []"
    by (auto simp: starts_with_marker_def)
  from s show "\<not> is_ordered_item (strip l)"
    by (simp add: is_ordered_item_def match_numbered_def is_digit_def)
  from s lstrip_eq_strip_append [of l] obtain b where "lstrip l = CHR ''|'' # t @ b" by auto
  then show "\<not> match_unordered l"
    by (simp add: match_unordered_def lstrip_def starts_with_marker_def)
qed

subsection \<open>The emoticon catalogue\<close>

lemma startswith_append_cases:
  "startswith (e @ s) e' \<Longrightarrow> startswith e e' \<or> startswith e' e"
proof (induction e arbitrary: e')
  case Nil
  then show ?case by simp
next
  case (Cons c cs)
  then show ?case by (cases e') auto
qed

lemma tokens_prefix_free:
  "list_all (\<lambda>e. list_all (\<lambda>e'. (startswith e e' \<or> startswith e' e) \<longrightarrow> e' = e) jira_emoticons)
     jira_emoticons"
  by (simp add: jira_emoticons_def)

lemma token_prefix_unique:
  assumes "e \<in> set jira_emoticons" and "e' \<in> set jira_emoticons" and "startswith (e @ s) e'"
  shows "e' = e"
proof -
  from assms(3) have "startswith e e' \<or> startswith e' e" by (rule startswith_append_cases)
  with tokens_prefix_free assms(1,2) show ?thesis
    unfolding list_all_iff by blast
qed


subsection \<open>Lines with an inert start\<close>

lemma inert_start_Cons:
  "inert_start l \<Longrightarrow> \<exists>c cs. l = c # cs \<and> \<not> is_space c \<and> \<not> is_digit c \<and> c \<notin> set ''#-*+|>`''"
  by (cases l) (auto simp: inert_start_def)

lemma inert_line_not_list:
  assumes "inert_start l"
  shows "strip l \<noteq> ''---''" and "\<not> starts_with_marker (strip l)"
    and "\<not> is_ordered_item (strip l)" and "strip l \<noteq> []" and "\<not> match_unordered l"
    and "\<not> startswith (strip l) ''```''" and "\<not> startswith (strip l) ''|''"
proof -
  from inert_start_Cons [OF assms] obtain c cs where
    l: "l = c # cs" and c: "\<not> is_space c" "\<not> is_digit c" "c \<notin> set ''#-*+|>`''"
    by blast
  from l c(1) have s: "strip l = c # rstrip cs" by (simp add: strip_Cons_nonspace)
  from s c show "strip l \<noteq> ''---''" and "\<not> starts_with_marker (strip l)" and "strip l \<noteq> []"
    and "\<not> startswith (strip l) ''```''" and "\<not> startswith (strip l) ''|''"
    by (auto simp: starts_with_marker_def)
  from s c show "\<not> is_ordered_item (strip l)"
    by (auto simp: is_ordered_item_def match_numbered_def)
  from l c show "\<not> match_unordered l"
    by (auto simp: match_unordered_def starts_with_marker_def)
qed

lemma inert_line_lookahead:
  "inert_start l \<Longrightarrow> sub_items (l # rest) = ([], False, l # rest)"
  using inert_line_not_list [of l] by simp

lemma inert_line_normalized:
  "inert_start l \<Longrightarrow> convert_lists_with_nesting (l # rest) = l # convert_lists_with_nesting rest"
  using inert_line_not_list [of l] by simp

lemma inert_line_step:
  "inert_start l \<Longrightarrow> \<not> in_code_block st \<Longrightarrow>
   converted_lines (step st l) = converted_lines st @ [convert_line l]"
  using inert_line_not_list [of l] by (simp add: step_def Let_def)

lemma code_block_step:
  "in_code_block st \<Longrightarrow> \<not> startswith (strip l) ''```'' \<Longrightarrow>
   converted_lines (step st l) = converted_lines st @ [l]"
  by (simp add: step_def)

lemma inert_line_document:
  assumes "inert_start l" and "NL \<notin> set l"
  shows "convert_text l = replace_str ''<<<JIRALIST2>>>'' ''** '' (convert_line l)"
proof -
  from assms(2) have "split_char NL l = [l]" by (rule split_char_no_sep)
  moreover have "convert_lists_with_nesting [l] = [l]"
    using inert_line_normalized [OF assms(1), of "[]"] by simp
  moreover have "converted_lines (step initial_state l) = [convert_line l]"
    using inert_line_step [OF assms(1), of initial_state] by (simp add: initial_state_def)
  ultimately show ?thesis by (simp add: convert_text_def)
qed

subsection \<open>The inline rewriter on text without markup\<close>

lemma bold_matches_no_star: "CHR ''*'' \<notin> set s \<Longrightarrow> bold_matches s = []"
  by (induction s) auto

lemma sub_italic_no_star: "CHR ''*'' \<notin> set s \<Longrightarrow> sub_italic s = s"
  by (induction s) auto

lemma bold_italic_no_star: "CHR ''*'' \<notin> set s \<Longrightarrow> bold_italic s = s"
  by (simp add: bold_italic_def bold_matches_no_star sub_italic_no_star)

lemma sub_code_inline_none: "CHR ''`'' \<notin> set s \<Longrightarrow> sub_code_inline s = s"
  by (induction s) auto

lemma sub_link_none: "CHR ''['' \<notin> set s \<Longrightarrow> sub_link s = s"
  by (induction s) auto

lemma sub_strikethrough_none: "CHR ''~'' \<notin> set s \<Longrightarrow> sub_strikethrough s = s"
  by (induction s) auto

lemma anchored_patterns_inert:
  assumes "inert_start s"
  shows "sub_header (CHR ''#'' # hs) out s = s" and "sub_unordered_list s = s"
    and "sub_ordered_list s = s" and "sub_table_separator s = s" and "sub_hr s = s"
    and "sub_blockquote s = s"
proof -
  from inert_start_Cons [OF assms] obtain c cs where
    l: "s = c # cs" and c: "\<not> is_space c" "\<not> is_digit c" "c \<notin> set ''#-*+|>`''"
    by blast
  from l c show "sub_header (CHR ''#'' # hs) out s = s" by (simp add: sub_header_def)
  from l c show "sub_unordered_list s = s"
    by (auto simp: sub_unordered_list_def starts_with_marker_def)
  from l c show "sub_ordered_list s = s" by (simp add: sub_ordered_list_def)
  from l c show "sub_table_separator s = s" by (simp add: sub_table_separator_def)
  from l c show "sub_hr s = s" by (auto simp: sub_hr_def)
  from l c show "sub_blockquote s = s" by (simp add: sub_blockquote_def)
qed

lemma apply_patterns_inert:
  assumes "inert_start s" and "CHR ''`'' \<notin> set s" and "CHR ''['' \<notin> set s" and "CHR ''~'' \<notin> set s"
  shows "apply_patterns s = s"
  using assms
  by (simp add: apply_patterns_def patterns_def anchored_patterns_inert sub_code_inline_none
        sub_link_none sub_strikethrough_none)

lemma no_inline_markup_chars:
  assumes "no_inline_markup s"
  shows "CHR ''('' \<notin> set s" and "CHR ''*'' \<notin> set s" and "CHR ''`'' \<notin> set s"
    and "CHR ''['' \<notin> set s" and "CHR ''~'' \<notin> set s" and "NL \<notin> set s"
  using assms by (auto simp: no_inline_markup_def list_all_iff)

lemma escape_loop_no_paren:
  "CHR ''('' \<notin> set s \<Longrightarrow> \<forall>e\<in>set es. startswith e ''('' \<Longrightarrow> escape_loop es s phs n = (s, phs)"
proof (induction es)
  case Nil
  then show ?case by simp
next
  case (Cons e es)
  from Cons.prems(2) obtain t where "e = CHR ''('' # t" by (cases e) auto
  with Cons.prems(1) have "\<not> contains e s" by (simp add: contains_def split_first_None)
  with Cons show ?case by simp
qed

lemma emoticons_start_paren: "\<forall>e\<in>set sorted_emoticons. startswith e ''(''"
  by (simp add: sorted_emoticons_eq)

lemma convert_line_plain:
  assumes "inert_start s" and "no_inline_markup s"
  shows "convert_line s = s"
proof -
  note ch = no_inline_markup_chars [OF assms(2)]
  have "escape_loop sorted_emoticons s [] 0 = (s, [])"
    using ch(1) emoticons_start_paren by (rule escape_loop_no_paren)
  then show ?thesis
    using assms(1) ch by (simp add: convert_line_def bold_italic_no_star apply_patterns_inert)
qed

subsection \<open>A single emoticon in plain text\<close>

lemma split_first_at:
  "c \<notin> set p \<Longrightarrow> split_first (c # t) (p @ (c # t) @ s) = Some (p, s)"
proof (induction p)
  case Nil
  have "startswith ((c # t) @ s) (c # t)" by (rule startswith_append_self)
  then show ?case by simp
next
  case (Cons x p)
  then show ?case by auto
qed

lemma replace_str_unique:
  assumes "c \<notin> set p" and "c \<notin> set s"
  shows "replace_str (c # t) new (p @ (c # t) @ s) = p @ new @ s"
  using split_first_at [OF assms(1), of t s] replace_str_absent [OF assms(2), of t new]
  by (subst replace_str.simps) simp

lemma split_first_skip_prefix:
  "c \<notin> set p \<Longrightarrow> split_first (c # t) (p @ x) = None \<longleftrightarrow> split_first (c # t) x = None"
  by (induction p) (auto split: option.splits)

lemma tokens_shape:
  "list_all (\<lambda>e. startswith e ''('' \<and> CHR ''('' \<notin> set (tl e) \<and> CHR ''<'' \<notin> set e
                   \<and> NL \<notin> set e) jira_emoticons"
  by (simp add: jira_emoticons_def NL_def)

lemma token_shapeD:
  assumes "e \<in> set jira_emoticons"
  obtains u where "e = CHR ''('' # u" and "CHR ''('' \<notin> set u" and "CHR ''<'' \<notin> set u"
    and "NL \<notin> set u"
proof -
  from tokens_shape assms have a: "startswith e ''(''" "CHR ''('' \<notin> set (tl e)"
    "CHR ''<'' \<notin> set e" "NL \<notin> set e"
    unfolding list_all_iff by blast+
  from a(1) obtain u where "e = CHR ''('' # u" by (cases e) auto
  with a that show ?thesis by auto
qed

lemma other_token_absent:
  assumes "e \<in> set jira_emoticons" and "e' \<in> set jira_emoticons" and "e' \<noteq> e"
    and "CHR ''('' \<notin> set p" and "CHR ''('' \<notin> set s"
  shows "\<not> contains e' (p @ e @ s)"
proof -
  from assms(1) obtain u where e: "e = CHR ''('' # u" and u: "CHR ''('' \<notin> set u"
    by (rule token_shapeD)
  from assms(2) obtain u' where e': "e' = CHR ''('' # u'" by (rule token_shapeD)
  have ns: "\<not> startswith (e @ s) e'"
    using token_prefix_unique [OF assms(1,2)] assms(3) by blast
  from u assms(5) have "split_first e' (u @ s) = None"
    unfolding e' by (simp add: split_first_None)
  with ns have "split_first e' (e @ s) = None" unfolding e by (simp add: e')
  then have "split_first e' (p @ e @ s) = None"
    unfolding e' using split_first_skip_prefix [OF assms(4)] by blast
  then show ?thesis by (simp add: contains_def)
qed

lemma escape_loop_skip:
  "\<forall>e'\<in>set pre. \<not> contains e' l \<Longrightarrow>
   escape_loop (pre @ rest) l phs n = escape_loop rest l phs n"
  by (induction pre) auto

lemma sorted_emoticons_set: "set sorted_emoticons = set jira_emoticons"
  by (simp add: sorted_emoticons_def)

lemma sorted_emoticons_distinct: "distinct sorted_emoticons"
  by (simp add: sorted_emoticons_eq)

lemma str_nat_0: "str_nat 0 = ''0''"
  by (simp add: str_nat.simps)

lemma escape_loop_one_token:
  assumes "e \<in> set jira_emoticons" and "CHR ''('' \<notin> set p" and "CHR ''('' \<notin> set s"
  shows "escape_loop sorted_emoticons (p @ e @ s) [] 0
           = (p @ ''__EMOTICON_PLACEHOLDER_0__'' @ s, [(''__EMOTICON_PLACEHOLDER_0__'', BSL # e)])"
proof -
  from assms(1) have "e \<in> set sorted_emoticons" by (simp add: sorted_emoticons_set)
  then obtain pre post where sp: "sorted_emoticons = pre @ e # post"
    by (auto dest: split_list)
  from sorted_emoticons_distinct have "distinct (pre @ e # post)" by (simp only: sp)
  then have ne: "e \<notin> set pre" "e \<notin> set post" by auto
  from sorted_emoticons_set have "set (pre @ e # post) = set jira_emoticons" by (simp only: sp)
  then have sub: "set pre \<subseteq> set jira_emoticons" "set post \<subseteq> set jira_emoticons"
    by auto
  have pre: "\<forall>e'\<in>set pre. \<not> contains e' (p @ e @ s)"
    using other_token_absent [OF assms(1) _ _ assms(2,3)] sub(1) ne(1) by blast
  from assms(1) obtain u where e: "e = CHR ''('' # u" by (rule token_shapeD)
  have rep: "replace_str e ''__EMOTICON_PLACEHOLDER_0__'' (p @ e @ s)
               = p @ ''__EMOTICON_PLACEHOLDER_0__'' @ s"
    unfolding e using assms(2,3) by (rule replace_str_unique)
  have np: "CHR ''('' \<notin> set (p @ ''__EMOTICON_PLACEHOLDER_0__'' @ s)"
    using assms(2,3) by simp
  from emoticons_start_paren have "\<forall>e'\<in>set (pre @ e # post). startswith e' ''(''"
    by (simp only: sp)
  then have post: "\<forall>e'\<in>set post. startswith e' ''(''" by simp
  have "escape_loop sorted_emoticons (p @ e @ s) [] 0 = escape_loop (e # post) (p @ e @ s) [] 0"
    unfolding sp using pre by (rule escape_loop_skip)
  also have "\<dots> = escape_loop post (p @ ''__EMOTICON_PLACEHOLDER_0__'' @ s)
                     [(''__EMOTICON_PLACEHOLDER_0__'', BSL # e)] 1"
    using contains_append [of e p s] rep by (simp add: str_nat_0)
  also have "\<dots> = (p @ ''__EMOTICON_PLACEHOLDER_0__'' @ s, [(''__EMOTICON_PLACEHOLDER_0__'', BSL # e)])"
    using np post by (rule escape_loop_no_paren)
  finally show ?thesis .
qed

lemma inert_start_append: "inert_start p \<Longrightarrow> inert_start (p @ x)"
  by (cases p) (auto simp: inert_start_def)

lemma convert_line_one_token:
  assumes "e \<in> set jira_emoticons"
    and "no_inline_markup p" and "no_inline_markup s"
    and "CHR ''_'' \<notin> set p" and "CHR ''_'' \<notin> set s"
    and "p = [] \<or> inert_start p"
  shows "convert_line (p @ e @ s) = p @ BSL # e @ s"
proof -
  note cp = no_inline_markup_chars [OF assms(2)]
  note cs = no_inline_markup_chars [OF assms(3)]
  let ?ph = "''__EMOTICON_PLACEHOLDER_0__''"
  let ?l = "p @ ?ph @ s"
  have esc: "escape_loop sorted_emoticons (p @ e @ s) [] 0 = (?l, [(?ph, BSL # e)])"
    using assms(1) cp(1) cs(1) by (rule escape_loop_one_token)
  have inert: "inert_start ?l"
    using assms(6) by (auto simp: inert_start_append) (simp add: inert_start_def is_space_def is_digit_def)
  have bi: "bold_italic ?l = ?l" using cp cs by (simp add: bold_italic_no_star)
  have ap: "apply_patterns ?l = ?l" using inert cp cs by (simp add: apply_patterns_inert)
  have rs: "replace_str ?ph (BSL # e) ?l = p @ (BSL # e) @ s"
    using replace_str_unique [OF assms(4,5), of "''_EMOTICON_PLACEHOLDER_0__''" "BSL # e"] by simp
  have "convert_line (p @ e @ s)
          = replace_str ?ph (BSL # e) (apply_patterns (bold_italic ?l))"
    by (simp only: convert_line_def esc prod.case if_cancel restore_placeholders.simps)
  also have "\<dots> = p @ (BSL # e) @ s" by (simp only: bi ap rs)
  finally show ?thesis by simp
qed

subsection \<open>Converted lines as input\<close>

lemma no_inline_markup_append:
  "no_inline_markup (a @ b) \<longleftrightarrow> no_inline_markup a \<and> no_inline_markup b"
  by (simp add: no_inline_markup_def)

lemma header_prefix_plain:
  assumes "h \<in> set [''h2. '', ''h3. '', ''h4. '', ''h5. '', ''h6. '']"
  shows "inert_start (h @ p)" and "no_inline_markup h" and "CHR ''<'' \<notin> set h"
  using assms
  by (auto simp: inert_start_def is_space_def is_digit_def no_inline_markup_def NL_def)

lemma nested_marker_is_ordered:
  assumes "startswith (strip l) ''#*''"
  shows "is_ordered_item (strip l)"
    and "ordered_head (strip l) = ''# '' @ strip (drop 1 (strip l))"
    and "''# '' @ strip (drop 1 (strip l)) \<noteq> l"
proof -
  from assms obtain t where s: "strip l = CHR ''#'' # CHR ''*'' # t"
    by (cases "strip l"; cases "tl (strip l)") auto
  then show "is_ordered_item (strip l)" by (simp add: is_ordered_item_def)
  from s show "ordered_head (strip l) = ''# '' @ strip (drop 1 (strip l))"
    by (simp add: ordered_head_def)
  show "''# '' @ strip (drop 1 (strip l)) \<noteq> l"
  proof
    assume eq: "''# '' @ strip (drop 1 (strip l)) = l"
    then have "l = CHR ''#'' # CHR '' '' # strip (drop 1 (strip l))" by simp
    then obtain x where l: "l = CHR ''#'' # CHR '' '' # x" by blast
    have "\<not> is_space (CHR ''#'')" by (simp add: is_space_def)
    then have "strip l = CHR ''#'' # rstrip (CHR '' '' # x)"
      unfolding l by (rule strip_Cons_nonspace)
    with s have r: "rstrip (CHR '' '' # x) = CHR ''*'' # t" by simp
    from rstrip_decomp [of "CHR '' '' # x"] r show False by simp
  qed
qed

subsection \<open>The index loops compute the normalizer\<close>

lemma lookahead_while_sub_items:
  "j \<le> length lines \<Longrightarrow>
   \<exists>j'. j \<le> j' \<and> j' \<le> length lines
      \<and> lookahead_while lines j out_lines
            = Some (j', fst (snd (sub_items (drop j lines))),
                    out_lines @ fst (sub_items (drop j lines)))
      \<and> drop j' lines = snd (snd (sub_items (drop j lines)))"
proof (induction "length lines - j" arbitrary: j out_lines)
  case 0
  then have j: "j = length lines" by simp
  then have "lookahead_while lines j out_lines = Some (j, False, out_lines)"
    by (subst lookahead_while.simps) simp
  with j show ?case by simp
next
  case (Suc n)
  then have lt: "j < length lines" by simp
  then have d: "drop j lines = lines ! j # drop (Suc j) lines"
    by (simp add: Cons_nth_drop_Suc)
  from Suc.hyps(2) lt have n: "n = length lines - Suc j" by simp
  from lt have le: "Suc j \<le> length lines" by simp
  note IH = Suc.hyps(1) [OF n le]
  let ?l = "lines ! j"
  let ?s = "strip ?l"
  consider (hr) "?s = ''---''"
    | (sub) "?s \<noteq> ''---''" "starts_with_marker ?s"
    | (ord) "?s \<noteq> ''---''" "\<not> starts_with_marker ?s" "is_ordered_item ?s"
    | (blank) "?s \<noteq> ''---''" "\<not> starts_with_marker ?s" "\<not> is_ordered_item ?s" "?s = []"
    | (other) "?s \<noteq> ''---''" "\<not> starts_with_marker ?s" "\<not> is_ordered_item ?s" "?s \<noteq> []"
    by blast
  then show ?case
  proof cases
    case hr
    then have "lookahead_while lines j out_lines = Some (j, True, out_lines)"
      using lt by (subst lookahead_while.simps) simp
    with hr d lt show ?thesis by auto
  next
    case sub
    from IH [of "out_lines @ [sub_item_line ?l]"] obtain j' where
      j': "Suc j \<le> j'" "j' \<le> length lines"
      "lookahead_while lines (Suc j) (out_lines @ [sub_item_line ?l])
         = Some (j', fst (snd (sub_items (drop (Suc j) lines))),
                 (out_lines @ [sub_item_line ?l]) @ fst (sub_items (drop (Suc j) lines)))"
      "drop j' lines = snd (snd (sub_items (drop (Suc j) lines)))"
      by blast
    from sub lt have "lookahead_while lines j out_lines
        = lookahead_while lines (Suc j) (out_lines @ [sub_item_line ?l])"
      by (subst lookahead_while.simps) simp
    with j' sub d show ?thesis
      by (intro exI [of _ j']) (simp add: case_prod_unfold)
  next
    case ord
    then have "lookahead_while lines j out_lines = Some (j, False, out_lines)"
      using lt by (subst lookahead_while.simps) simp
    with ord d lt show ?thesis by auto
  next
    case blank
    from IH [of out_lines] obtain j' where
      j': "Suc j \<le> j'" "j' \<le> length lines"
      "lookahead_while lines (Suc j) out_lines
         = Some (j', fst (snd (sub_items (drop (Suc j) lines))),
                 out_lines @ fst (sub_items (drop (Suc j) lines)))"
      "drop j' lines = snd (snd (sub_items (drop (Suc j) lines)))"
      by blast
    from blank lt have "lookahead_while lines j out_lines
        = lookahead_while lines (Suc j) out_lines"
      by (subst lookahead_while.simps) simp
    with j' blank d show ?thesis
      by (intro exI [of _ j']) simp
  next
    case other
    then have "lookahead_while lines j out_lines = Some (j, False, out_lines)"
      using lt by (subst lookahead_while.simps) simp
    with other d lt show ?thesis by auto
  qed
qed

lemma lists_while_normalizer:
  "i \<le> length lines \<Longrightarrow>
   lists_while lines i out_lines = Some (out_lines @ convert_lists_with_nesting (drop i lines))"
proof (induction "length lines - i" arbitrary: i out_lines rule: less_induct)
  case less
  show ?case
  proof (cases "i < length lines")
    case False
    with less.prems have "i = length lines" by simp
    then show ?thesis by (subst lists_while.simps) simp
  next
    case True
    then have d: "drop i lines = lines ! i # drop (Suc i) lines"
      by (simp add: Cons_nth_drop_Suc)
    let ?l = "lines ! i"
    let ?s = "strip ?l"
    from True have le: "Suc i \<le> length lines" by simp
    have step1: "lists_while lines (Suc i) out' =
        Some (out' @ convert_lists_with_nesting (drop (Suc i) lines))" for out'
      using less.hyps [of "Suc i" out'] True le by simp
    show ?thesis
    proof (cases "is_ordered_item ?s")
      case ord: True
      let ?r = "sub_items (drop (Suc i) lines)"
      from lookahead_while_sub_items [OF le, of "out_lines @ [ordered_head ?s]"]
      obtain j' where j': "Suc i \<le> j'" "j' \<le> length lines"
        "lookahead_while lines (Suc i) (out_lines @ [ordered_head ?s])
           = Some (j', fst (snd ?r), (out_lines @ [ordered_head ?s]) @ fst ?r)"
        "drop j' lines = snd (snd ?r)"
        by blast
      from j'(1) True have "length lines - j' < length lines - i" by simp
      from less.hyps [OF this j'(2)]
      have rec: "lists_while lines j' out' =
          Some (out' @ convert_lists_with_nesting (snd (snd ?r)))" for out'
        by (simp add: j'(4))
      from ord True have "lists_while lines i out_lines =
          Option.bind (lookahead_while lines (Suc i) (out_lines @ [ordered_head ?s]))
            (\<lambda>(j, found_hr_after_list, out_lines).
                lists_while lines j
                  (if found_hr_after_list then out_lines @ [[]] else out_lines))"
        by (subst lists_while.simps) simp
      also have "\<dots> = lists_while lines j'
            (if fst (snd ?r) then ((out_lines @ [ordered_head ?s]) @ fst ?r) @ [[]]
             else (out_lines @ [ordered_head ?s]) @ fst ?r)"
        by (simp add: j'(3))
      also have "\<dots> = Some (out_lines @ convert_lists_with_nesting (drop i lines))"
        using ord by (simp add: rec d)
      finally show ?thesis .
    next
      case nord: False
      show ?thesis
      proof (cases "match_unordered ?l \<and> \<not> startswith ?s ''---''")
        case True
        with nord \<open>i < length lines\<close> have "lists_while lines i out_lines =
            lists_while lines (Suc i) (out_lines @ [unordered_line ?l])"
          by (subst lists_while.simps) simp
        with True nord show ?thesis by (simp add: step1 d)
      next
        case False
        with nord \<open>i < length lines\<close> have "lists_while lines i out_lines =
            lists_while lines (Suc i) (out_lines @ [?l])"
          by (subst lists_while.simps) auto
        with False nord show ?thesis by (auto simp: step1 d)
      qed
    qed
  qed
qed

subsection \<open>Replacing a word that is marked by a rare character\<close>










subsection \<open>Placeholders\<close>


















subsection \<open>The emoticon loop on text and emoticons\<close>












subsection \<open>The bold and italic block on a line with spans\<close>

text \<open>
  Behind the emoticon loop every emoticon of the line is a placeholder; \<open>f\<close> is the
  token-to-placeholder map.
\<close>

lemma render_atoms_simps [simp]:
  "render_atoms f [] = []"
  "render_atoms f (a # as) = render_atom f a @ render_atoms f as"
  by (simp_all add: render_atoms_def)


lemma tokens_nonempty: "e \<in> set jira_emoticons \<Longrightarrow> e \<noteq> []"
  by (erule token_shapeD) simp


































subsection \<open>The inline rewriter on a line with spans\<close>











subsection \<open>Documents of lines with an inert start\<close>










section \<open>Scenarios\<close>

text \<open>
  C2 (as stated): converting the three-line table \<^verbatim>\<open>|A|B|\<close>, \<^verbatim>\<open>|--|--|\<close>,
  \<^verbatim>\<open>|1|2|\<close> returns \<^verbatim>\<open>||A||B||\<close> followed by \<^verbatim>\<open>|1|2|\<close>.  The converter does not
  return that text.
\<close>

theorem table_scenario_counterexample:
  "convert_text ''|A|B|\<newline>|--|--|\<newline>|1|2|'' \<noteq> ''||A||B||\<newline>|1|2|''"
  by (simp add: eval_simps cong: let_weak_cong prod.case_cong_weak)

text \<open>
  C2 (amended): converting the three-line table \<^verbatim>\<open>|A|B|\<close>, \<^verbatim>\<open>|--|--|\<close>,
  \<^verbatim>\<open>|1|2|\<close> returns \<^verbatim>\<open>|A|B|\<close> followed by \<^verbatim>\<open>|1|2|\<close>: the separator row is
  dropped and both remaining rows are emitted with single-pipe delimiters, because neither
  source row contains a double pipe.
\<close>

theorem table_scenario_single_pipes:
  "convert_text ''|A|B|\<newline>|--|--|\<newline>|1|2|'' = ''|A|B|\<newline>|1|2|''"
  by (simp add: eval_simps cong: let_weak_cong prod.case_cong_weak)

text \<open>
  C1 (failing input): a fenced block whose only content line is \<^verbatim>\<open>- a\<close>.  The list
  normalizer runs over every line before the fence state exists, so the content line
  leaves the converter as \<^verbatim>\<open>* a\<close>.
\<close>

theorem code_fence_content_rewritten:
  "convert_text ''```\<newline>- a\<newline>```'' = ''{code}\<newline>* a\<newline>{code}''"
  by (simp add: eval_simps cong: let_weak_cong prod.case_cong_weak)

section \<open>Horizontal rules and the list normalizer\<close>

text \<open>
  C9: a line whose stripped form is exactly \<^verbatim>\<open>---\<close> is never consumed as a list
  marker by the normalizer.  The look-ahead behind an ordinal head stops at it without
  consuming it and reports the rule; at top level the line passes through unchanged; and
  when it follows an ordinal head and a run of sub-items and blank lines, the normalizer
  emits the head, the sub-items, exactly one blank line, and then the rule line itself.
\<close>

theorem hr_never_list_marker:
  assumes "strip l = ''---''"
  shows "sub_items (l # rest) = ([], True, l # rest)
       \<and> convert_lists_with_nesting (l # rest) = l # convert_lists_with_nesting rest
       \<and> (is_ordered_item (strip h)
            \<and> (\<forall>x\<in>set subs. strip x = [] \<or> (starts_with_marker (strip x) \<and> strip x \<noteq> ''---''))
          \<longrightarrow> convert_lists_with_nesting (h # subs @ l # rest)
                = ordered_head (strip h) # map sub_item_line (filter (\<lambda>x. strip x \<noteq> []) subs)
                    @ [] # l # convert_lists_with_nesting rest)"
proof (intro conjI impI)
  show "sub_items (l # rest) = ([], True, l # rest)"
    using assms by (rule sub_items_hr)
  show top: "convert_lists_with_nesting (l # rest) = l # convert_lists_with_nesting rest"
    using assms by (rule convert_lists_hr)
  assume a: "is_ordered_item (strip h)
     \<and> (\<forall>x\<in>set subs. strip x = [] \<or> (starts_with_marker (strip x) \<and> strip x \<noteq> ''---''))"
  then have run: "sub_items (subs @ l # rest) =
      (map sub_item_line (filter (\<lambda>x. strip x \<noteq> []) subs), True, l # rest)"
    using sub_items_run [of subs "l # rest"] sub_items_hr [OF assms, of rest] by simp
  from a have "convert_lists_with_nesting (h # subs @ l # rest)
      = ordered_head (strip h) # fst (sub_items (subs @ l # rest))
          @ (if fst (snd (sub_items (subs @ l # rest))) then [[]] else [])
          @ convert_lists_with_nesting (snd (snd (sub_items (subs @ l # rest))))"
    by simp
  with run top show "convert_lists_with_nesting (h # subs @ l # rest)
      = ordered_head (strip h) # map sub_item_line (filter (\<lambda>x. strip x \<noteq> []) subs)
          @ [] # l # convert_lists_with_nesting rest"
    by simp
qed

theorem hr_never_list_marker_witness:
  "convert_lists_with_nesting [''1. a'', ''   - b'', '''', '' ---'', ''- x'']
     = [''# a'', ''#* b'', '''', '' ---'', ''* x'']
   \<and> convert_lists_with_nesting ['' ---'', ''- x''] = ['' ---'', ''* x'']"
proof -
  have h1: "strip '' ---'' = ''---''" by code_simp
  have h2: "is_ordered_item (strip ''1. a'')" by code_simp
  have h3: "\<forall>x\<in>set [''   - b'', ''''].
              strip x = [] \<or> (starts_with_marker (strip x) \<and> strip x \<noteq> ''---'')"
    by (simp add: eval_simps cong: let_weak_cong prod.case_cong_weak)
  have e: "ordered_head (strip ''1. a'')
             # map sub_item_line (filter (\<lambda>x. strip x \<noteq> []) [''   - b'', ''''])
             @ [] # '' ---'' # convert_lists_with_nesting [''- x'']
           = [''# a'', ''#* b'', '''', '' ---'', ''* x'']"
    by (simp add: eval_simps cong: let_weak_cong prod.case_cong_weak)
  have e2: "convert_lists_with_nesting [''- x''] = [''* x'']" by code_simp
  from hr_never_list_marker [OF h1, of "[''- x'']" "''1. a''" "[''   - b'', '''']"] h2 h3
  have "convert_lists_with_nesting (''1. a'' # [''   - b'', ''''] @ '' ---'' # [''- x''])
          = ordered_head (strip ''1. a'')
             # map sub_item_line (filter (\<lambda>x. strip x \<noteq> []) [''   - b'', ''''])
             @ [] # '' ---'' # convert_lists_with_nesting [''- x'']"
    and "convert_lists_with_nesting ('' ---'' # [''- x'']) = '' ---'' # convert_lists_with_nesting [''- x'']"
    by blast+
  with e e2 show ?thesis by simp
qed

section \<open>Depth of sub-items behind an ordinal head\<close>




section \<open>Table rows\<close>

text \<open>
  C6 (as stated): a separator-only line, made of pipes, dashes and white space, produces no
  output line.  The line \<^verbatim>\<open>||\<close> is made of pipes only and is emitted as \<^verbatim>\<open>||||\<close>.
\<close>

theorem double_pipe_line_counterexample:
  "list_all sep_class ''||'' \<and> convert_text ''||'' = ''||||''"
  by (simp add: eval_simps cong: let_weak_cong prod.case_cong_weak)

text \<open>
  C6 (amended): for a line outside a code fence whose stripped form starts and ends with
  a pipe, the main loop emits nothing when the stripped line is made of pipes, dashes and
  white space only and is not the two-character line \<^verbatim>\<open>||\<close>; every other such line is
  emitted as one line, with the outer pipes stripped, the cells split at the pipes and
  trimmed, and rejoined with \<^verbatim>\<open>||\<close> around and between the cells when the source line
  contains \<^verbatim>\<open>||\<close> anywhere, and with single pipes otherwise.
\<close>

theorem table_line_emitted:
  assumes "\<not> in_code_block st"
    and "startswith (strip line) ''|''"
    and "endswith (strip line) ''|''"
  shows "converted_lines (step st line) =
     (if (\<forall>c\<in>set (strip line). sep_class c) \<and> strip line \<noteq> ''||''
      then converted_lines st
      else converted_lines st @
        [if contains ''||'' line
         then ''||'' @ join ''||''
                (map strip (split_char (CHR ''|'') (butlast (drop 1 (strip line))))) @ ''||''
         else ''|'' @ join ''|''
                (map strip (split_char (CHR ''|'') (butlast (drop 1 (strip line))))) @ ''|''])"
proof -
  have nf: "\<not> startswith (strip line) ''```''" using assms(2) by (rule pipe_not_fence)
  have pin: "CHR ''|'' \<in> set line" using assms(2) by (rule pipe_in_line)
  have sep: "(strip line = ''|'' \<or> is_table_separator (strip line))
           \<longleftrightarrow> ((\<forall>c\<in>set (strip line). sep_class c) \<and> strip line \<noteq> ''||'')"
    using assms(2,3) by (rule separator_iff)
  have dbl: "(startswith (strip line) ''||'' \<or> contains ''||'' line) = contains ''||'' line"
    using contains_strip [of line "''||''"] by blast
  have tl: "convert_table_line line =
      (if contains ''||'' line
         then ''||'' @ join ''||''
                (map strip (split_char (CHR ''|'') (butlast (drop 1 (strip line))))) @ ''||''
         else ''|'' @ join ''|''
                (map strip (split_char (CHR ''|'') (butlast (drop 1 (strip line))))) @ ''|'')"
    using assms(2,3) unfolding convert_table_line_def Let_def dbl by simp
  show ?thesis
  proof (cases "(\<forall>c\<in>set (strip line). sep_class c) \<and> strip line \<noteq> ''||''")
    case True
    with sep have "strip line = ''|'' \<or> is_table_separator (strip line)" by blast
    with True assms(1) nf pin assms(2) show ?thesis
      by (simp add: step_def Let_def)
  next
    case False
    with sep have "\<not> (strip line = ''|'' \<or> is_table_separator (strip line))" by blast
    with False assms(1) nf pin assms(2) tl show ?thesis
      by (simp add: step_def Let_def)
  qed
qed

theorem table_line_emitted_witness:
  "converted_lines (step initial_state '' | a | b | '') = [''|a|b|'']
   \<and> converted_lines (step initial_state ''||h||'') = [''||||h||||'']
   \<and> converted_lines (step initial_state ''|--|--|'') = []"
proof -
  have c: "\<not> in_code_block initial_state" by (simp add: initial_state_def)
  have a1: "startswith (strip '' | a | b | '') ''|''" by (simp add: eval_simps)
  have a2: "endswith (strip '' | a | b | '') ''|''" by (simp add: eval_simps)
  have b1: "startswith (strip ''||h||'') ''|''" by (simp add: eval_simps)
  have b2: "endswith (strip ''||h||'') ''|''" by (simp add: eval_simps)
  have d1: "startswith (strip ''|--|--|'') ''|''" by (simp add: eval_simps)
  have d2: "endswith (strip ''|--|--|'') ''|''" by (simp add: eval_simps)
  have "converted_lines (step initial_state '' | a | b | '') = [''|a|b|'']"
    by (simp only: table_line_emitted [OF c a1 a2]) (simp add: eval_simps)
  moreover have "converted_lines (step initial_state ''||h||'') = [''||||h||||'']"
    by (simp only: table_line_emitted [OF c b1 b2]) (simp add: eval_simps)
  moreover have "converted_lines (step initial_state ''|--|--|'') = []"
    by (simp only: table_line_emitted [OF c d1 d2]) (simp add: eval_simps)
  ultimately show ?thesis by blast
qed

section \<open>Malformed table rows\<close>

text \<open>
  C10 (as stated): a line outside a code fence whose stripped form starts with a pipe and
  does not end with one leaves \<^verbatim>\<open>convert_text\<close> completely unchanged.  Such a line that
  contains the list sentinel does not.
\<close>

theorem malformed_table_row_counterexample:
  "convert_text ''|<<<JIRALIST2>>>x'' = ''|** x''
   \<and> convert_text ''|<<<JIRALIST2>>>x'' \<noteq> ''|<<<JIRALIST2>>>x''"
  by (simp add: eval_simps cong: let_weak_cong prod.case_cong_weak)

text \<open>
  C10 (amended): for a line whose stripped form starts with a pipe and does not end with
  one, the look-ahead of the list normalizer stops at the line without consuming it, the
  normalizer passes it through unchanged, and outside a code fence the main loop appends
  the line itself: no cell splitting, no inline rewriting, no emoticon escaping.  The only
  change \<^verbatim>\<open>convert_text\<close> makes to it is the final pass that replaces each literal
  \<^verbatim>\<open><<<JIRALIST2>>>\<close> by \<^verbatim>\<open>** \<close>; a one-line document of this kind without the
  character \<^verbatim>\<open><\<close> is returned unchanged.
\<close>

theorem malformed_table_row_unchanged:
  assumes "startswith (strip l) ''|''" and "\<not> endswith (strip l) ''|''"
  shows "sub_items (l # rest) = ([], False, l # rest)
       \<and> convert_lists_with_nesting (l # rest) = l # convert_lists_with_nesting rest
       \<and> (\<not> in_code_block st \<longrightarrow> converted_lines (step st l) = converted_lines st @ [l])
       \<and> (NL \<notin> set l \<longrightarrow> convert_text l = replace_str ''<<<JIRALIST2>>>'' ''** '' l)
       \<and> (NL \<notin> set l \<and> CHR ''<'' \<notin> set l \<longrightarrow> convert_text l = l)"
proof -
  note nl = pipe_line_not_list [OF assms(1)]
  have look: "sub_items (l # rest) = ([], False, l # rest)" for rest
    using nl by simp
  have norm: "convert_lists_with_nesting (l # rest) = l # convert_lists_with_nesting rest" for rest
    using nl by simp
  have nf: "\<not> startswith (strip l) ''```''" using assms(1) by (rule pipe_not_fence)
  have pin: "CHR ''|'' \<in> set l" using assms(1) by (rule pipe_in_line)
  have n1: "strip l \<noteq> ''|''" using assms(2) by (auto simp: endswith_def)
  have n2: "\<not> is_table_separator (strip l)"
  proof
    assume "is_table_separator (strip l)"
    then obtain r where r: "sep_body (drop 1 (strip l)) = Some r"
      by (auto simp: is_table_separator_def)
    from assms(1) obtain t where s: "strip l = CHR ''|'' # t" by (cases "strip l") auto
    from r s have t: "t \<noteq> []" by auto
    from sep_body_ends [OF r] s have "endswith t ''|'' \<or> is_space (last t)" by simp
    then show False
    proof
      assume "endswith t ''|''"
      with s have "endswith (strip l) ''|''" by (simp add: endswith_Cons)
      with assms(2) show False by simp
    next
      assume "is_space (last t)"
      with s t have "is_space (last (strip l))" by simp
      moreover from s have "strip l \<noteq> []" by simp
      ultimately show False using strip_last_nonspace by blast
    qed
  qed
  have tl: "convert_table_line l = l"
    using assms(2) by (simp add: convert_table_line_def Let_def)
  have stp: "converted_lines (step st l) = converted_lines st @ [l]"
    if "\<not> in_code_block st" for st
    using that nf pin assms(1) n1 n2 tl by (simp add: step_def Let_def)
  have doc: "convert_text l = replace_str ''<<<JIRALIST2>>>'' ''** '' l" if "NL \<notin> set l"
  proof -
    from that have "split_char NL l = [l]" by (rule split_char_no_sep)
    moreover have "convert_lists_with_nesting [l] = [l]" using norm [of "[]"] by simp
    moreover have "converted_lines (step initial_state l) = [l]"
      using stp [of initial_state] by (simp add: initial_state_def)
    ultimately show ?thesis by (simp add: convert_text_def)
  qed
  have doc2: "convert_text l = l" if "NL \<notin> set l \<and> CHR ''<'' \<notin> set l"
    using that doc by (simp add: replace_str_absent)
  from look norm stp doc doc2 show ?thesis by blast
qed

theorem malformed_table_row_unchanged_witness:
  "convert_text ''|a (n) *b*'' = ''|a (n) *b*''
   \<and> converted_lines (step initial_state ''|a (n) *b*'') = [''|a (n) *b*'']"
proof -
  have h1: "startswith (strip ''|a (n) *b*'') ''|''" by (simp add: eval_simps)
  have h2: "\<not> endswith (strip ''|a (n) *b*'') ''|''" by (simp add: eval_simps)
  have h3: "NL \<notin> set ''|a (n) *b*'' \<and> CHR ''<'' \<notin> set ''|a (n) *b*''" by (simp add: NL_def)
  have h4: "\<not> in_code_block initial_state" by (simp add: initial_state_def)
  have h5: "converted_lines initial_state = []" by (simp add: initial_state_def)
  note t = malformed_table_row_unchanged [OF h1 h2, of "[]" initial_state]
  from t h3 have a: "convert_text ''|a (n) *b*'' = ''|a (n) *b*''" by blast
  from t h4 have "converted_lines (step initial_state ''|a (n) *b*'')
      = converted_lines initial_state @ [''|a (n) *b*'']" by blast
  then have b: "converted_lines (step initial_state ''|a (n) *b*'') = [''|a (n) *b*'']"
    by (simp only: h5 append_Nil)
  from a b show ?thesis by blast
qed

section \<open>Emoticon escaping\<close>




section \<open>Placeholders\<close>

text \<open>
  C7 (as stated): a placeholder-shaped substring of the input is left as literal text.
  A literal list sentinel is rewritten to \<^verbatim>\<open>** \<close>, and a literal bold placeholder in a
  line with a bold span is replaced by that span.
\<close>

theorem placeholder_collision_counterexample:
  "convert_text ''<<<JIRALIST2>>>'' = ''** ''
   \<and> convert_text ''__BOLD_PLACEHOLDER_0__ **b**'' = ''*b* *b*''"
  by (simp add: eval_simps cong: let_weak_cong prod.case_cong_weak)

text \<open>
  C7 (amended): in a one-line text with an inert start and no inline markup character the
  inline rewriter changes nothing, so bold and emoticon placeholder strings that the text
  contains stay literal; the list sentinel \<^verbatim>\<open><<<JIRALIST2>>>\<close> does not: the final pass
  replaces every occurrence of it by \<^verbatim>\<open>** \<close>, whether or not the normalizer inserted
  it, and the text is returned unchanged only when it has none.
\<close>

theorem sentinel_rewritten_in_plain_line:
  assumes "inert_start l" and "no_inline_markup l"
  shows "convert_line l = l
       \<and> convert_text l = replace_str ''<<<JIRALIST2>>>'' ''** '' l
       \<and> (CHR ''<'' \<notin> set l \<longrightarrow> convert_text l = l)"
proof -
  have cl: "convert_line l = l" using assms by (rule convert_line_plain)
  have nl: "NL \<notin> set l" using assms(2) by (rule no_inline_markup_chars)
  have doc: "convert_text l = replace_str ''<<<JIRALIST2>>>'' ''** '' l"
    using inert_line_document [OF assms(1) nl] by (simp only: cl)
  moreover have "convert_text l = l" if "CHR ''<'' \<notin> set l"
    using doc that by (simp add: replace_str_absent)
  ultimately show ?thesis using cl by blast
qed

theorem sentinel_rewritten_in_plain_line_witness:
  "convert_text ''x __BOLD_PLACEHOLDER_0__ <<<JIRALIST2>>>y'' = ''x __BOLD_PLACEHOLDER_0__ ** y''
   \<and> convert_text ''x __EMOTICON_PLACEHOLDER_0__'' = ''x __EMOTICON_PLACEHOLDER_0__''"
proof -
  have i1: "inert_start ''x __BOLD_PLACEHOLDER_0__ <<<JIRALIST2>>>y''"
    by (simp add: inert_start_def is_space_def is_digit_def)
  have m1: "no_inline_markup ''x __BOLD_PLACEHOLDER_0__ <<<JIRALIST2>>>y''"
    by (simp add: no_inline_markup_def NL_def)
  have i2: "inert_start ''x __EMOTICON_PLACEHOLDER_0__''"
    by (simp add: inert_start_def is_space_def is_digit_def)
  have m2: "no_inline_markup ''x __EMOTICON_PLACEHOLDER_0__''"
    by (simp add: no_inline_markup_def NL_def)
  have r: "replace_str ''<<<JIRALIST2>>>'' ''** '' ''x __BOLD_PLACEHOLDER_0__ <<<JIRALIST2>>>y''
         = ''x __BOLD_PLACEHOLDER_0__ ** y''"
    by (simp add: replace_str.simps)
  have l2: "CHR ''<'' \<notin> set ''x __EMOTICON_PLACEHOLDER_0__''" by simp
  from sentinel_rewritten_in_plain_line [OF i1 m1] r
  have a: "convert_text ''x __BOLD_PLACEHOLDER_0__ <<<JIRALIST2>>>y'' = ''x __BOLD_PLACEHOLDER_0__ ** y''"
    by (simp only:)
  from sentinel_rewritten_in_plain_line [OF i2 m2] l2
  have b: "convert_text ''x __EMOTICON_PLACEHOLDER_0__'' = ''x __EMOTICON_PLACEHOLDER_0__''"
    by blast
  from a b show ?thesis by blast
qed

section \<open>Converting converted text again\<close>

text \<open>
  C3 (as stated): a second run of the converter leaves the nested list-marker lines of
  the first run unchanged.  The first run of \<^verbatim>\<open>1. Item\<close>, \<^verbatim>\<open>   - sub\<close> gives the
  line \<^verbatim>\<open>#* sub\<close>; the second run turns it into \<^verbatim>\<open># * sub\<close>.
\<close>

theorem rerun_counterexample:
  "convert_text ''1. Item\<newline>   - sub'' = ''# Item\<newline>#* sub''
   \<and> convert_text (convert_text ''1. Item\<newline>   - sub'') = ''# Item\<newline># * sub''"
  by (simp add: eval_simps cong: let_weak_cong prod.case_cong_weak)

text \<open>
  C3 (amended): a header line \<^verbatim>\<open>h2. \<close> to \<^verbatim>\<open>h6. \<close> whose payload has no inline
  markup character and no \<^verbatim>\<open><\<close> is left unchanged by another run: converted alone it
  is returned as it is, the list normalizer passes it through in any context, and the main
  loop appends it unchanged in any state.  A line whose stripped form begins with
  \<^verbatim>\<open>#*\<close> is not left unchanged: the normalizer reads it as an ordinal head and
  emits \<^verbatim>\<open># \<close> followed by the rest of the line, which differs from the line.
\<close>

theorem rerun_header_and_nested_marker:
  "(h \<in> set [''h2. '', ''h3. '', ''h4. '', ''h5. '', ''h6. '']
      \<and> no_inline_markup p \<and> CHR ''<'' \<notin> set p
    \<longrightarrow> convert_text (h @ p) = h @ p
        \<and> convert_lists_with_nesting ((h @ p) # rest) = (h @ p) # convert_lists_with_nesting rest
        \<and> converted_lines (step st (h @ p)) = converted_lines st @ [h @ p])
   \<and> (startswith (strip l) ''#*''
    \<longrightarrow> (\<exists>tail. convert_lists_with_nesting (l # rest)
                    = (''# '' @ strip (drop 1 (strip l))) # tail)
        \<and> ''# '' @ strip (drop 1 (strip l)) \<noteq> l)"
proof (intro conjI impI)
  assume a: "h \<in> set [''h2. '', ''h3. '', ''h4. '', ''h5. '', ''h6. '']
      \<and> no_inline_markup p \<and> CHR ''<'' \<notin> set p"
  then have h: "h \<in> set [''h2. '', ''h3. '', ''h4. '', ''h5. '', ''h6. '']" by blast
  note hp = header_prefix_plain [OF h]
  have inert: "inert_start (h @ p)" by (rule hp(1))
  have plain: "no_inline_markup (h @ p)" using a hp(2) by (simp add: no_inline_markup_append)
  have lt: "CHR ''<'' \<notin> set (h @ p)" using a hp(3) by simp
  have cl: "convert_line (h @ p) = h @ p" using inert plain by (rule convert_line_plain)
  have nl: "NL \<notin> set (h @ p)" using plain by (rule no_inline_markup_chars)
  have "convert_text (h @ p) = replace_str ''<<<JIRALIST2>>>'' ''** '' (h @ p)"
    using inert_line_document [OF inert nl] by (simp only: cl)
  also have "\<dots> = h @ p" using lt by (rule replace_str_absent)
  finally show "convert_text (h @ p) = h @ p" .
  show "convert_lists_with_nesting ((h @ p) # rest) = (h @ p) # convert_lists_with_nesting rest"
    using inert by (rule inert_line_normalized)
  show "converted_lines (step st (h @ p)) = converted_lines st @ [h @ p]"
  proof (cases "in_code_block st")
    case True
    then show ?thesis using inert_line_not_list(6) [OF inert] by (rule code_block_step)
  next
    case False
    with inert have "converted_lines (step st (h @ p)) = converted_lines st @ [convert_line (h @ p)]"
      by (rule inert_line_step)
    then show ?thesis by (simp only: cl)
  qed
next
  assume s: "startswith (strip l) ''#*''"
  note n = nested_marker_is_ordered [OF s]
  from n(1) have "convert_lists_with_nesting (l # rest)
     = ordered_head (strip l) # fst (sub_items rest)
         @ (if fst (snd (sub_items rest)) then [[]] else [])
         @ convert_lists_with_nesting (snd (snd (sub_items rest)))"
    by simp
  then show "\<exists>tail. convert_lists_with_nesting (l # rest)
                    = (''# '' @ strip (drop 1 (strip l))) # tail"
    unfolding n(2) by blast
  show "''# '' @ strip (drop 1 (strip l)) \<noteq> l" by (rule n(3))
qed

theorem rerun_header_and_nested_marker_witness:
  "convert_text ''h2. Header 2'' = ''h2. Header 2''
   \<and> (\<exists>tail. convert_lists_with_nesting [''#* sub''] = ''# * sub'' # tail)"
proof -
  have h: "''h2. '' \<in> set [''h2. '', ''h3. '', ''h4. '', ''h5. '', ''h6. '']
      \<and> no_inline_markup ''Header 2'' \<and> CHR ''<'' \<notin> set ''Header 2''"
    by (simp add: no_inline_markup_def NL_def)
  have s: "startswith (strip ''#* sub'') ''#*''" by (simp add: eval_simps)
  have e: "''# '' @ strip (drop 1 (strip ''#* sub'')) = ''# * sub''" by (simp add: eval_simps)
  note t = rerun_header_and_nested_marker [of "''h2. ''" "''Header 2''" "[]" initial_state "''#* sub''"]
  from t h have a: "convert_text (''h2. '' @ ''Header 2'') = ''h2. '' @ ''Header 2''" by blast
  from t s have "\<exists>tail. convert_lists_with_nesting [''#* sub'']
      = (''# '' @ strip (drop 1 (strip ''#* sub''))) # tail" by blast
  then have b: "\<exists>tail. convert_lists_with_nesting [''#* sub''] = ''# * sub'' # tail"
    by (simp only: e)
  from a b show ?thesis by simp
qed

section \<open>Totality\<close>

text \<open>
  C8: \<^verbatim>\<open>convert_text\<close> terminates and returns an output string for every input string.
  Run with the two index loops of the normalizer as they are written, the conversion of
  any text returns a value, and that value is the one computed by the recursive
  normalizer; the inputs include texts with unbalanced stars, an unterminated code fence
  or a malformed table row.
\<close>

theorem convert_text_total:
  "convert_text_run text = Some (convert_text text)"
proof -
  have "lists_while (split_char NL text) 0 []
          = Some (convert_lists_with_nesting (split_char NL text))"
    using lists_while_normalizer [of 0 "split_char NL text" "[]"] by simp
  then show ?thesis by (simp add: convert_text_run_def convert_text_def)
qed

end
